theory Spec2Isabelle
  imports Main "HOL-Library.Word"
begin

unbundle bit_operations_syntax

section \<open>Data model\<close>

text \<open>
  The driver in \<^verbatim>\<open>Core/Src/soft_i2c.c\<close> keeps no data of its own: everything it does is an
  effect on two open-drain pins, the microsecond timer, the caller's buffers and the
  console. The model makes these effects explicit. A \<open>machine\<close> holds the two output
  latches of the master (\<open>False\<close>: the pin is driven low, \<open>True\<close>: the pin floats and the
  pull-up raises it), the byte-addressed memory the buffer pointers refer to, and the
  log of every effect in the order the code performs it.
\<close>

type_synonym u8 = "8 word"
type_synonym u16 = "16 word"
type_synonym ptr = "32 word"

datatype event =
    SclWrite bool
  | SdaWrite bool
  | SdaRead bool
  | DelayUs u16
  | Load ptr u8
  | Store ptr u8
  | Print string

record machine =
  scl_out :: bool
  sda_out :: bool
  mem :: "ptr \<Rightarrow> u8"
  trace :: "event list"

text \<open>
  \<^verbatim>\<open>HAL_GPIO_ReadPin\<close> is not part of the sources: the level found on the SDA pad is a
  parameter of every operation that samples it. It is a function of everything that
  happened so far, so it covers any deterministic slave, the pull-up, and the wired-AND
  with the master's own latch.
\<close>

type_synonym sda_pin = "event list \<Rightarrow> bool"

subsection \<open>Constants of \<^verbatim>\<open>soft_i2c.h\<close>\<close>

definition I2C_SCL_LOW_DELAY :: u16 where "I2C_SCL_LOW_DELAY = 5"
definition I2C_SCL_HIGH_DELAY :: u16 where "I2C_SCL_HIGH_DELAY = 5"
definition I2C_START_DELAY :: u16 where "I2C_START_DELAY = 5"
definition I2C_STOP_DELAY :: u16 where "I2C_STOP_DELAY = 5"
definition I2C_ADDRESS_MIN :: int where "I2C_ADDRESS_MIN = 0x03"
definition I2C_ADDRESS_MAX :: int where "I2C_ADDRESS_MAX = 0x77"

section \<open>Pin and timer primitives\<close>

definition log_event :: "event \<Rightarrow> machine \<Rightarrow> machine" where
  "log_event e s = s\<lparr>trace := trace s @ [e]\<rparr>"

text \<open>
  \<^verbatim>\<open>i2c_delay_us\<close> spins on the free-running hardware counter TIM4 until the requested
  number of microseconds has passed. The counter is hardware outside the sources and its
  register type is declared in the vendor headers. The model does not follow the counter:
  it takes the counter to run, so that the wait ends, and records the wait as one event
  carrying the requested duration. Nothing below is about how long a wait lasts.
\<close>

definition i2c_delay_us :: "u16 \<Rightarrow> machine \<Rightarrow> machine" where
  "i2c_delay_us delay_us s = log_event (DelayUs delay_us) s"

definition soft_i2c_scl_write :: "bool \<Rightarrow> machine \<Rightarrow> machine" where
  "soft_i2c_scl_write pinstate s = log_event (SclWrite pinstate) (s\<lparr>scl_out := pinstate\<rparr>)"

definition soft_i2c_sda_write :: "bool \<Rightarrow> machine \<Rightarrow> machine" where
  "soft_i2c_sda_write pinstate s = log_event (SdaWrite pinstate) (s\<lparr>sda_out := pinstate\<rparr>)"

definition soft_i2c_sda_read :: "sda_pin \<Rightarrow> machine \<Rightarrow> bool \<times> machine" where
  "soft_i2c_sda_read pin s = (let v = pin (trace s) in (v, log_event (SdaRead v) s))"

section \<open>START and STOP\<close>

definition soft_i2c_start :: "machine \<Rightarrow> machine" where
  "soft_i2c_start s =
     (let s = soft_i2c_sda_write False s;
          s = i2c_delay_us I2C_START_DELAY s
      in soft_i2c_scl_write False s)"

definition soft_i2c_stop :: "machine \<Rightarrow> machine" where
  "soft_i2c_stop s =
     (let s = soft_i2c_sda_write False s;
          s = i2c_delay_us I2C_SCL_LOW_DELAY s;
          s = soft_i2c_scl_write True s;
          s = i2c_delay_us I2C_STOP_DELAY s
      in soft_i2c_sda_write True s)"

section \<open>Byte transfers\<close>

text \<open>The \<^verbatim>\<open>for\<close> loop of \<^verbatim>\<open>soft_i2c_write8\<close>; \<^verbatim>\<open>data_byte <<= 1\<close> truncates to 8 bits.\<close>

function write8_loop :: "nat \<Rightarrow> u8 \<Rightarrow> machine \<Rightarrow> machine" where
  "write8_loop i data_byte s =
     (if i < 8 then
        let s = (if data_byte AND 0x80 \<noteq> 0 then soft_i2c_sda_write True s
                 else soft_i2c_sda_write False s);
            data_byte = push_bit 1 data_byte;
            s = i2c_delay_us I2C_SCL_LOW_DELAY s;
            s = soft_i2c_scl_write True s;
            s = i2c_delay_us I2C_SCL_HIGH_DELAY s;
            s = soft_i2c_scl_write False s
        in write8_loop (i + 1) data_byte s
      else s)"
  by pat_completeness auto
termination
  by (relation "measure (\<lambda>(i, d, s). 8 - i)") auto

declare write8_loop.simps [simp del]

definition soft_i2c_write8 :: "sda_pin \<Rightarrow> u8 \<Rightarrow> machine \<Rightarrow> bool \<times> machine" where
  "soft_i2c_write8 pin data_byte s =
     (let s = write8_loop 0 data_byte s;
          s = soft_i2c_sda_write True s;
          s = i2c_delay_us I2C_SCL_LOW_DELAY s;
          s = soft_i2c_scl_write True s;
          (ack, s) = soft_i2c_sda_read pin s;
          s = i2c_delay_us I2C_SCL_HIGH_DELAY s;
          s = soft_i2c_scl_write False s
      in (ack, s))"

text \<open>The \<^verbatim>\<open>for\<close> loop of \<^verbatim>\<open>soft_i2c_read8\<close>, returning the accumulated byte.\<close>

function read8_loop :: "sda_pin \<Rightarrow> nat \<Rightarrow> u8 \<Rightarrow> machine \<Rightarrow> u8 \<times> machine" where
  "read8_loop pin i data_byte s =
     (if i < 8 then
        let s = i2c_delay_us I2C_SCL_LOW_DELAY s;
            s = soft_i2c_scl_write True s;
            data_byte = push_bit 1 data_byte;
            (v, s) = soft_i2c_sda_read pin s;
            data_byte = (if v then data_byte OR 1 else data_byte);
            s = i2c_delay_us I2C_SCL_HIGH_DELAY s;
            s = soft_i2c_scl_write False s
        in read8_loop pin (i + 1) data_byte s
      else (data_byte, s))"
  by pat_completeness auto
termination
  by (relation "measure (\<lambda>(pin, i, d, s). 8 - i)") auto

declare read8_loop.simps [simp del]

definition soft_i2c_read8 :: "sda_pin \<Rightarrow> bool \<Rightarrow> machine \<Rightarrow> u8 \<times> machine" where
  "soft_i2c_read8 pin ack s =
     (let data_byte = 0;
          s = soft_i2c_sda_write True s;
          (data_byte, s) = read8_loop pin 0 data_byte s;
          s = soft_i2c_sda_write ack s;
          s = i2c_delay_us I2C_SCL_LOW_DELAY s;
          s = soft_i2c_scl_write True s;
          s = i2c_delay_us I2C_SCL_HIGH_DELAY s;
          s = soft_i2c_scl_write False s
      in (data_byte, s))"

section \<open>Transaction layer\<close>

text \<open>
  \<^verbatim>\<open>i2c_address << 1\<close> is computed in \<^verbatim>\<open>int\<close> and truncated to 8 bits when it is passed to
  \<^verbatim>\<open>soft_i2c_write8\<close>: a shift on an 8-bit word.
\<close>

definition i2c_device_ready :: "sda_pin \<Rightarrow> u8 \<Rightarrow> machine \<Rightarrow> bool \<times> machine" where
  "i2c_device_ready pin i2c_address s =
     (let s = soft_i2c_start s;
          (rc, s) = soft_i2c_write8 pin (push_bit 1 i2c_address) s;
          s = soft_i2c_stop s
      in (\<not> rc, s))"

text \<open>
  The buffers of \<^verbatim>\<open>i2c_write_read\<close> are pointers into memory: a pointer is a 32-bit
  address, \<^verbatim>\<open>NULL\<close> is address 0, and every dereference is logged.
\<close>

definition load_byte :: "ptr \<Rightarrow> machine \<Rightarrow> u8 \<times> machine" where
  "load_byte p s = (mem s p, log_event (Load p (mem s p)) s)"

definition store_byte :: "ptr \<Rightarrow> u8 \<Rightarrow> machine \<Rightarrow> machine" where
  "store_byte p v s = log_event (Store p v) (s\<lparr>mem := (mem s)(p := v)\<rparr>)"

function write_loop :: "sda_pin \<Rightarrow> ptr \<Rightarrow> u8 \<Rightarrow> machine \<Rightarrow> machine" where
  "write_loop pin write_data write_count s =
     (if write_count \<noteq> 0 then
        let (v, s) = load_byte write_data s;
            (rc, s) = soft_i2c_write8 pin v s;
            write_data = write_data + 1;
            write_count = write_count - 1
        in write_loop pin write_data write_count s
      else s)"
  by pat_completeness auto
termination
  by (relation "measure (\<lambda>(pin, p, c, s). unat c)") (auto simp: measure_unat)

declare write_loop.simps [simp del]

function read_loop :: "sda_pin \<Rightarrow> ptr \<Rightarrow> u8 \<Rightarrow> machine \<Rightarrow> machine" where
  "read_loop pin read_data read_count s =
     (if read_count \<noteq> 0 then
        let (v, s) = soft_i2c_read8 pin False s;
            s = store_byte read_data v s;
            read_data = read_data + 1;
            read_count = read_count - 1
        in read_loop pin read_data read_count s
      else s)"
  by pat_completeness auto
termination
  by (relation "measure (\<lambda>(pin, p, c, s). unat c)") (auto simp: measure_unat)

declare read_loop.simps [simp del]

definition i2c_write_read ::
  "sda_pin \<Rightarrow> u8 \<Rightarrow> ptr \<Rightarrow> u8 \<Rightarrow> ptr \<Rightarrow> u8 \<Rightarrow> machine \<Rightarrow> int \<times> machine" where
  "i2c_write_read pin i2c_address write_data write_count read_data read_count s =
     (let s = (if write_data \<noteq> 0 \<and> write_count \<noteq> 0 then
                 let s = soft_i2c_start s;
                     (rc, s) = soft_i2c_write8 pin (push_bit 1 i2c_address) s;
                     s = write_loop pin write_data write_count s
                 in soft_i2c_stop s
               else s);
          s = (if read_data \<noteq> 0 \<and> read_count \<noteq> 0 then
                 let s = soft_i2c_start s;
                     (rc, s) = soft_i2c_write8 pin (push_bit 1 i2c_address OR 1) s;
                     s = read_loop pin read_data read_count s
                 in soft_i2c_stop s
               else s)
      in (0, s))"

section \<open>Bus scan\<close>

text \<open>
  \<^verbatim>\<open>printf\<close> appends the formatted text to the log. The conversions \<^verbatim>\<open>%02X\<close> and \<^verbatim>\<open>%0X\<close>
  are written out: upper-case hexadecimal, padded with zeros to two digits for \<^verbatim>\<open>%02X\<close>.
\<close>

definition printf :: "string \<Rightarrow> machine \<Rightarrow> machine" where
  "printf str s = log_event (Print str) s"

definition hex_digit :: "nat \<Rightarrow> char" where
  "hex_digit n = ''0123456789ABCDEF'' ! (n mod 16)"

fun hex_digits :: "nat \<Rightarrow> string" where
  "hex_digits n = (if n < 16 then [hex_digit n] else hex_digits (n div 16) @ [hex_digit n])"

declare hex_digits.simps [simp del]

definition fmt_0X :: "nat \<Rightarrow> string" where
  "fmt_0X n = hex_digits n"

definition fmt_02X :: "nat \<Rightarrow> string" where
  "fmt_02X n = (if n < 16 then CHR ''0'' # hex_digits n else hex_digits n)"

definition newline :: char where
  "newline = CHR 0x0A"

function header_loop :: "int \<Rightarrow> machine \<Rightarrow> machine" where
  "header_loop i s =
     (if i \<le> 0x0F then header_loop (i + 1) (printf ('' '' @ fmt_0X (nat i) @ '' '') s) else s)"
  by pat_completeness auto
termination
  by (relation "measure (\<lambda>(i, s). nat (0x10 - i))") auto

declare header_loop.simps [simp del]

text \<open>
  One pass of the scan loop. \<^verbatim>\<open>addr\<close> is a \<^verbatim>\<open>uint16_t\<close>; it is compared as an \<^verbatim>\<open>int\<close> and
  truncated to 8 bits when it is passed to \<^verbatim>\<open>i2c_device_ready\<close>. The \<^verbatim>\<open>continue\<close> of the
  out-of-range branch ends the pass.
\<close>

definition scan_body :: "sda_pin \<Rightarrow> u16 \<Rightarrow> machine \<Rightarrow> machine" where
  "scan_body pin addr s =
     (let s = (if uint addr mod 16 = 0 then printf (newline # fmt_02X (unat addr) @ '': '') s
               else s)
      in if uint addr < I2C_ADDRESS_MIN \<or> uint addr > I2C_ADDRESS_MAX then printf ''   '' s
         else
           let (ready, s) = i2c_device_ready pin (ucast addr) s
           in if ready then printf (fmt_02X (unat addr) @ '' '') s else printf ''-- '' s)"

function scan_loop :: "sda_pin \<Rightarrow> u16 \<Rightarrow> machine \<Rightarrow> machine" where
  "scan_loop pin addr s =
     (if uint addr \<le> I2C_ADDRESS_MAX then scan_loop pin (addr + 1) (scan_body pin addr s)
      else s)"
  by pat_completeness auto
termination
  by (relation "measure (\<lambda>(pin, addr, s). nat (0x78 - uint addr))")
     (auto simp: I2C_ADDRESS_MAX_def uint_word_ariths)

declare scan_loop.simps [simp del]

definition cl_i2c_scan :: "sda_pin \<Rightarrow> machine \<Rightarrow> int \<times> machine" where
  "cl_i2c_scan pin s =
     (let s = printf (''I2C Scan - scanning I2C addresses 0x'' @ fmt_02X (nat I2C_ADDRESS_MIN)
                      @ '' - 0x'' @ fmt_02X (nat I2C_ADDRESS_MAX) @ [newline]) s;
          s = printf ''    '' s;
          s = header_loop 0 s;
          s = scan_loop pin 0 s;
          s = printf [newline] s
      in (0, s))"

section \<open>Expected waveforms and observations\<close>

text \<open>
  The definitions of this section are not part of the driver. They name the waveforms the
  driver is expected to produce, and the observations made on a log of effects.
\<close>

definition new_events :: "machine \<Rightarrow> machine \<Rightarrow> event list" where
  "new_events s s' = drop (length (trace s)) (trace s')"

definition idle_bus :: machine where
  "idle_bus = \<lparr>scl_out = True, sda_out = True, mem = (\<lambda>p. 0), trace = []\<rparr>"

definition no_slave :: sda_pin where
  "no_slave tr = True"

definition start_wave :: "event list" where
  "start_wave = [SdaWrite False, DelayUs I2C_START_DELAY, SclWrite False]"

definition stop_wave :: "event list" where
  "stop_wave = [SdaWrite False, DelayUs I2C_SCL_LOW_DELAY, SclWrite True,
                DelayUs I2C_STOP_DELAY, SdaWrite True]"

text \<open>One data bit: the level is set, then the clock is pulsed.\<close>

definition bit_pulse :: "bool \<Rightarrow> event list" where
  "bit_pulse v = [SdaWrite v, DelayUs I2C_SCL_LOW_DELAY, SclWrite True,
                  DelayUs I2C_SCL_HIGH_DELAY, SclWrite False]"

definition bits_wave :: "nat \<Rightarrow> u8 \<Rightarrow> event list" where
  "bits_wave n b = concat (map (\<lambda>k. bit_pulse (bit b (7 - k))) [0..<n])"

definition byte_wave :: "u8 \<Rightarrow> event list" where
  "byte_wave b = bits_wave 8 b"

text \<open>The bits of a byte, most significant first.\<close>

definition msb_first :: "u8 \<Rightarrow> bool list" where
  "msb_first b = map (\<lambda>k. bit b (7 - k)) [0..<8]"

definition ack_release :: "event list" where
  "ack_release = [SdaWrite True, DelayUs I2C_SCL_LOW_DELAY, SclWrite True]"

definition ack_sample_wave :: "bool \<Rightarrow> event list" where
  "ack_sample_wave v = ack_release @ [SdaRead v, DelayUs I2C_SCL_HIGH_DELAY, SclWrite False]"

text \<open>The level on the pad when \<^verbatim>\<open>soft_i2c_write8\<close> samples it, in the high phase of the 9th pulse.\<close>

definition write8_ack :: "sda_pin \<Rightarrow> u8 \<Rightarrow> machine \<Rightarrow> bool" where
  "write8_ack pin b s = pin (trace s @ byte_wave b @ ack_release)"

definition probe_ack :: "sda_pin \<Rightarrow> u8 \<Rightarrow> machine \<Rightarrow> bool" where
  "probe_ack pin a s = pin (trace s @ start_wave @ byte_wave (push_bit 1 a) @ ack_release)"

text \<open>
  \<open>n\<close> sampling pulses after the history \<open>tr\<close>: the clock rises, the pad is read, the
  clock falls.
\<close>

fun sample_wave :: "sda_pin \<Rightarrow> event list \<Rightarrow> nat \<Rightarrow> event list" where
  "sample_wave pin tr 0 = []"
| "sample_wave pin tr (Suc n) =
     (let rise = [DelayUs I2C_SCL_LOW_DELAY, SclWrite True];
          pulse = rise @ [SdaRead (pin (tr @ rise)), DelayUs I2C_SCL_HIGH_DELAY, SclWrite False]
      in pulse @ sample_wave pin (tr @ pulse) n)"

fun sampled :: "event list \<Rightarrow> bool list" where
  "sampled [] = []"
| "sampled (SdaRead v # es) = v # sampled es"
| "sampled (e # es) = sampled es"

text \<open>Shift left, or in the sampled bit: the accumulation of \<^verbatim>\<open>soft_i2c_read8\<close>.\<close>

fun assemble :: "u8 \<Rightarrow> bool list \<Rightarrow> u8" where
  "assemble d [] = d"
| "assemble d (v # vs) = assemble (if v then push_bit 1 d OR 1 else push_bit 1 d) vs"

definition ack_drive_wave :: "bool \<Rightarrow> event list" where
  "ack_drive_wave ack = [SdaWrite ack, DelayUs I2C_SCL_LOW_DELAY, SclWrite True,
                         DelayUs I2C_SCL_HIGH_DELAY, SclWrite False]"

text \<open>
  The changes of the master's data latch made while its clock latch is released, each
  with its position in the log and the new level: a fall is a START condition, a rise is
  a STOP condition.
\<close>

fun sda_changes_while_high :: "nat \<Rightarrow> bool \<Rightarrow> bool \<Rightarrow> event list \<Rightarrow> (nat \<times> bool) list" where
  "sda_changes_while_high i scl sda [] = []"
| "sda_changes_while_high i scl sda (SclWrite v # es) = sda_changes_while_high (Suc i) v sda es"
| "sda_changes_while_high i scl sda (SdaWrite v # es) =
     (if scl \<and> v \<noteq> sda then [(i, v)] else []) @ sda_changes_while_high (Suc i) scl v es"
| "sda_changes_while_high i scl sda (e # es) = sda_changes_while_high (Suc i) scl sda es"

fun last_scl_write :: "event list \<Rightarrow> bool option" where
  "last_scl_write [] = None"
| "last_scl_write (e # es) =
     (case last_scl_write es of
        Some v \<Rightarrow> Some v
      | None \<Rightarrow> (case e of SclWrite v \<Rightarrow> Some v | _ \<Rightarrow> None))"

text \<open>The master's data latch at every rising edge of the clock.\<close>

fun sda_at_rising :: "bool \<Rightarrow> event list \<Rightarrow> bool list" where
  "sda_at_rising sda [] = []"
| "sda_at_rising sda (SdaWrite v # es) = sda_at_rising v es"
| "sda_at_rising sda (SclWrite True # es) = sda # sda_at_rising sda es"
| "sda_at_rising sda (e # es) = sda_at_rising sda es"

text \<open>
  A loopback slave: after the first \<open>n\<close> events of the log, the \<open>k\<close>-th read of the pad
  returns the \<open>k\<close>-th of the given bits, and the released level once they are used up.
\<close>

definition echo_pin :: "nat \<Rightarrow> bool list \<Rightarrow> sda_pin" where
  "echo_pin n bits tr =
     (case drop (length (sampled (drop n tr))) bits of [] \<Rightarrow> True | v # vs \<Rightarrow> v)"

subsection \<open>Transactions and the bus scan\<close>

text \<open>
  \<open>bus_out\<close> keeps of a log what the master drives: the writes to the two pins and the
  waits. The \<open>_wave\<close> functions give the complete log of a loop or a phase, the level of
  the pad taken from the \<open>sda_pin\<close> at every read; the \<open>_out\<close> functions give what the
  master drives of it, which does not depend on the pad.
\<close>

fun is_driven :: "event \<Rightarrow> bool" where
  "is_driven (SclWrite v) = True"
| "is_driven (SdaWrite v) = True"
| "is_driven (DelayUs d) = True"
| "is_driven e = False"

definition bus_out :: "event list \<Rightarrow> event list" where
  "bus_out evs = filter is_driven evs"

fun is_load :: "event \<Rightarrow> bool" where
  "is_load (Load p v) = True"
| "is_load e = False"

fun is_store :: "event \<Rightarrow> bool" where
  "is_store (Store p v) = True"
| "is_store e = False"

definition clock_pulse :: "event list" where
  "clock_pulse = [DelayUs I2C_SCL_LOW_DELAY, SclWrite True, DelayUs I2C_SCL_HIGH_DELAY,
                  SclWrite False]"

definition write_frame_out :: "u8 \<Rightarrow> event list" where
  "write_frame_out b = byte_wave b @ [SdaWrite True] @ clock_pulse"

definition read_frame_out :: "bool \<Rightarrow> event list" where
  "read_frame_out ack = [SdaWrite True] @ concat (replicate 8 clock_pulse) @ ack_drive_wave ack"

fun payload_out :: "(ptr \<Rightarrow> u8) \<Rightarrow> ptr \<Rightarrow> nat \<Rightarrow> event list" where
  "payload_out m p 0 = []"
| "payload_out m p (Suc n) = write_frame_out (m p) @ payload_out m (p + 1) n"

definition write_phase_out :: "(ptr \<Rightarrow> u8) \<Rightarrow> u8 \<Rightarrow> ptr \<Rightarrow> u8 \<Rightarrow> event list" where
  "write_phase_out m a wd wc =
     (if wd \<noteq> 0 \<and> wc \<noteq> 0
      then start_wave @ write_frame_out (push_bit 1 a) @ payload_out m wd (unat wc) @ stop_wave
      else [])"

definition read_phase_out :: "u8 \<Rightarrow> ptr \<Rightarrow> u8 \<Rightarrow> event list" where
  "read_phase_out a rd rc =
     (if rd \<noteq> 0 \<and> rc \<noteq> 0
      then start_wave @ write_frame_out (push_bit 1 a OR 1)
           @ concat (replicate (unat rc) (read_frame_out False)) @ stop_wave
      else [])"

fun payload_wave :: "sda_pin \<Rightarrow> (ptr \<Rightarrow> u8) \<Rightarrow> event list \<Rightarrow> ptr \<Rightarrow> nat \<Rightarrow> event list" where
  "payload_wave pin m tr p 0 = []"
| "payload_wave pin m tr p (Suc n) =
     (let sent = Load p (m p) # byte_wave (m p);
          frame = sent @ ack_sample_wave (pin (tr @ sent @ ack_release))
      in frame @ payload_wave pin m (tr @ frame) (p + 1) n)"

fun reads_wave :: "sda_pin \<Rightarrow> event list \<Rightarrow> ptr \<Rightarrow> nat \<Rightarrow> event list" where
  "reads_wave pin tr p 0 = []"
| "reads_wave pin tr p (Suc n) =
     (let w = sample_wave pin (tr @ [SdaWrite True]) 8;
          frame = [SdaWrite True] @ w @ ack_drive_wave False @ [Store p (assemble 0 (sampled w))]
      in frame @ reads_wave pin (tr @ frame) (p + 1) n)"

definition write_phase_wave ::
  "sda_pin \<Rightarrow> (ptr \<Rightarrow> u8) \<Rightarrow> event list \<Rightarrow> u8 \<Rightarrow> ptr \<Rightarrow> u8 \<Rightarrow> event list" where
  "write_phase_wave pin m tr a wd wc =
     (if wd \<noteq> 0 \<and> wc \<noteq> 0 then
        let sent = start_wave @ byte_wave (push_bit 1 a);
            frame = sent @ ack_sample_wave (pin (tr @ sent @ ack_release))
        in frame @ payload_wave pin m (tr @ frame) wd (unat wc) @ stop_wave
      else [])"

definition read_phase_wave ::
  "sda_pin \<Rightarrow> event list \<Rightarrow> u8 \<Rightarrow> ptr \<Rightarrow> u8 \<Rightarrow> event list" where
  "read_phase_wave pin tr a rd rc =
     (if rd \<noteq> 0 \<and> rc \<noteq> 0 then
        let sent = start_wave @ byte_wave (push_bit 1 a OR 1);
            frame = sent @ ack_sample_wave (pin (tr @ sent @ ack_release))
        in frame @ reads_wave pin (tr @ frame) rd (unat rc) @ stop_wave
      else [])"

definition probe_out :: "u8 \<Rightarrow> event list" where
  "probe_out a = start_wave @ write_frame_out (push_bit 1 a) @ stop_wave"

definition row_prefix :: "nat \<Rightarrow> event list" where
  "row_prefix a = (if a mod 16 = 0 then [Print (newline # fmt_02X a @ '': '')] else [])"

definition scan_cell :: "sda_pin \<Rightarrow> event list \<Rightarrow> nat \<Rightarrow> event list" where
  "scan_cell pin tr a =
     row_prefix a @
     (if a < 3 \<or> a > 0x77 then [Print ''   '']
      else
        let sent = start_wave @ byte_wave (push_bit 1 (of_nat a));
            v = pin (tr @ row_prefix a @ sent @ ack_release)
        in sent @ ack_sample_wave v @ stop_wave
           @ [Print (if \<not> v then fmt_02X a @ '' '' else ''-- '')])"

fun scan_wave :: "sda_pin \<Rightarrow> event list \<Rightarrow> nat list \<Rightarrow> event list" where
  "scan_wave pin tr [] = []"
| "scan_wave pin tr (a # as) = scan_cell pin tr a @ scan_wave pin (tr @ scan_cell pin tr a) as"

definition header_wave :: "event list" where
  "header_wave =
     Print (''I2C Scan - scanning I2C addresses 0x03 - 0x77'' @ [newline]) # Print ''    ''
     # map (\<lambda>k. Print ('' '' @ fmt_0X k @ '' '')) [0..<16]"

definition in_scan_range :: "nat \<Rightarrow> bool" where
  "in_scan_range a = (\<not> (a < 3 \<or> a > 0x77))"

definition out_of_scan_range :: "nat \<Rightarrow> bool" where
  "out_of_scan_range a = (a < 0x03 \<or> 0x77 < a)"

text \<open>
  A pad given by the sequence of its levels: after the first \<open>n\<close> events of the log the
  \<open>k\<close>-th read returns \<open>pad k\<close>. \<open>with_acks w acks pad\<close> replaces the levels of the reads
  0 to \<open>w\<close> by those of \<open>acks\<close>. \<open>ack_reads\<close> is the number of reads of the write phase,
  all of them in ACK slots; the read after them is the ACK slot of the address byte of
  the read phase. \<open>hide_reads k\<close> blanks the values of the first \<open>k\<close> reads of a log, and
  \<open>apply_stores\<close> replays the stores of a log on a memory.
\<close>

definition seq_pin :: "nat \<Rightarrow> (nat \<Rightarrow> bool) \<Rightarrow> sda_pin" where
  "seq_pin n pad tr = pad (length (sampled (drop n tr)))"

definition with_acks :: "nat \<Rightarrow> (nat \<Rightarrow> bool) \<Rightarrow> (nat \<Rightarrow> bool) \<Rightarrow> nat \<Rightarrow> bool" where
  "with_acks w acks pad k = (if k \<le> w then acks k else pad k)"

definition ack_reads :: "ptr \<Rightarrow> u8 \<Rightarrow> nat" where
  "ack_reads wd wc = (if wd \<noteq> 0 \<and> wc \<noteq> 0 then 1 + unat wc else 0)"

fun hide_reads :: "nat \<Rightarrow> event list \<Rightarrow> event list" where
  "hide_reads 0 es = es"
| "hide_reads (Suc k) [] = []"
| "hide_reads (Suc k) (SdaRead v # es) = SdaRead True # hide_reads k es"
| "hide_reads (Suc k) (e # es) = e # hide_reads (Suc k) es"

fun apply_stores :: "event list \<Rightarrow> (ptr \<Rightarrow> u8) \<Rightarrow> (ptr \<Rightarrow> u8)" where
  "apply_stores [] m = m"
| "apply_stores (Store p v # es) m = apply_stores es (m(p := v))"
| "apply_stores (e # es) m = apply_stores es m"

section \<open>The byte operations in closed form\<close>

lemma msb_test: "(d AND 0x80 \<noteq> 0) = bit (d::u8) 7"
  using bit_iff_and_push_bit_not_eq_0 [of d 7] by simp

lemma bit_shl1: "k < 7 \<Longrightarrow> bit (push_bit 1 (b::u8)) (Suc k) = bit b k"
  by (simp only: bit_push_bit_iff) simp

lemma write8_loop_step:
  "i < 8 \<Longrightarrow> write8_loop i b s = write8_loop (Suc i) (push_bit 1 b)
     \<lparr>scl_out = False, sda_out = bit b 7, mem = mem s, trace = trace s @ bit_pulse (bit b 7)\<rparr>"
  apply (subst write8_loop.simps)
  apply (cases s)
  apply (simp add: soft_i2c_sda_write_def soft_i2c_scl_write_def i2c_delay_us_def log_event_def
     msb_test bit_pulse_def Let_def)
  done

lemma write8_loop_done: "write8_loop 8 b s = s"
  by (subst write8_loop.simps) simp

lemma bits_wave_Suc:
  "n < 8 \<Longrightarrow> bits_wave (Suc n) b = bit_pulse (bit b 7) @ bits_wave n (push_bit 1 b)"
proof -
  assume n: "n < 8"
  have "map (\<lambda>k. bit_pulse (bit b (7 - k))) [0..<Suc n]
      = bit_pulse (bit b 7) # map (\<lambda>k. bit_pulse (bit b (7 - Suc k))) [0..<n]"
    by (simp only: upt_conv_Cons [of 0 "Suc n"] map_Suc_upt [symmetric] list.map map_map o_def)
       simp
  also have "map (\<lambda>k. bit_pulse (bit b (7 - Suc k))) [0..<n]
      = map (\<lambda>k. bit_pulse (bit (push_bit 1 b) (7 - k))) [0..<n]"
  proof (intro map_cong refl)
    fix k assume "k \<in> set [0..<n]"
    with n have k: "7 - k = Suc (6 - k)" "6 - k < 7" "7 - Suc k = 6 - k" by auto
    show "bit_pulse (bit b (7 - Suc k)) = bit_pulse (bit (push_bit 1 b) (7 - k))"
      by (simp only: k bit_shl1)
  qed
  finally show ?thesis by (simp only: bits_wave_def concat.simps)
qed

lemma write8_loop_wave:
  "n \<le> 8 \<Longrightarrow> n > 0 \<Longrightarrow> write8_loop (8 - n) b s =
     \<lparr>scl_out = False, sda_out = bit b (8 - n), mem = mem s, trace = trace s @ bits_wave n b\<rparr>"
proof (induction n arbitrary: b s)
  case 0 then show ?case by simp
next
  case (Suc n)
  let ?s1 = "\<lparr>scl_out = False, sda_out = bit b 7, mem = mem s, trace = trace s @ bit_pulse (bit b 7)\<rparr>"
  from Suc.prems have i: "8 - Suc n < 8" "Suc (8 - Suc n) = 8 - n" by auto
  have step: "write8_loop (8 - Suc n) b s = write8_loop (8 - n) (push_bit 1 b) ?s1"
    using write8_loop_step [OF i(1), of b s] by (simp only: i(2))
  show ?case
  proof (cases "n = 0")
    case True
    then show ?thesis unfolding step
      by (simp add: write8_loop_done bits_wave_def)
  next
    case False
    with Suc.prems have n: "n \<le> 8" "n > 0" "n < 8" by auto
    have k: "8 - n = Suc (7 - n)" "7 - n < 7" "8 - Suc n = 7 - n" using n by auto
    have "write8_loop (8 - n) (push_bit 1 b) ?s1 =
      \<lparr>scl_out = False, sda_out = bit (push_bit 1 b) (8 - n), mem = mem ?s1,
        trace = trace ?s1 @ bits_wave n (push_bit 1 b)\<rparr>"
      by (rule Suc.IH [OF n(1,2)])
    also have "\<dots> = \<lparr>scl_out = False, sda_out = bit b (8 - Suc n), mem = mem s,
        trace = trace s @ bits_wave (Suc n) b\<rparr>"
      by (simp only: bits_wave_Suc [OF n(3)] k bit_shl1) simp
    finally show ?thesis unfolding step .
  qed
qed

lemma write8_closed:
  "soft_i2c_write8 pin b s =
    (write8_ack pin b s,
     \<lparr>scl_out = False, sda_out = True, mem = mem s,
      trace = trace s @ byte_wave b @ ack_sample_wave (write8_ack pin b s)\<rparr>)"
  using write8_loop_wave [of 8 b s]
  by (simp add: soft_i2c_write8_def soft_i2c_sda_write_def soft_i2c_scl_write_def i2c_delay_us_def
     log_event_def soft_i2c_sda_read_def byte_wave_def ack_sample_wave_def ack_release_def
     write8_ack_def Let_def)

lemma start_closed:
  "soft_i2c_start s =
     \<lparr>scl_out = False, sda_out = False, mem = mem s, trace = trace s @ start_wave\<rparr>"
  by (cases s) (simp add: soft_i2c_start_def soft_i2c_sda_write_def soft_i2c_scl_write_def
     i2c_delay_us_def log_event_def start_wave_def)

lemma stop_closed:
  "soft_i2c_stop s =
     \<lparr>scl_out = True, sda_out = True, mem = mem s, trace = trace s @ stop_wave\<rparr>"
  by (cases s) (simp add: soft_i2c_stop_def soft_i2c_sda_write_def soft_i2c_scl_write_def
     i2c_delay_us_def log_event_def stop_wave_def)

lemma read8_loop_step:
  "i < 8 \<Longrightarrow> read8_loop pin i d s =
     read8_loop pin (Suc i)
       (if pin (trace s @ [DelayUs I2C_SCL_LOW_DELAY, SclWrite True]) then push_bit 1 d OR 1
        else push_bit 1 d)
       \<lparr>scl_out = False, sda_out = sda_out s, mem = mem s,
        trace = trace s @ sample_wave pin (trace s) 1\<rparr>"
  apply (subst read8_loop.simps)
  apply (cases s)
  apply (simp add: soft_i2c_sda_read_def soft_i2c_scl_write_def i2c_delay_us_def log_event_def
     Let_def)
  done

lemma read8_loop_done: "read8_loop pin 8 d s = (d, s)"
  by (subst read8_loop.simps) simp

lemma read8_loop_wave:
  "n \<le> 8 \<Longrightarrow> n > 0 \<Longrightarrow> read8_loop pin (8 - n) d s =
     (assemble d (sampled (sample_wave pin (trace s) n)),
      \<lparr>scl_out = False, sda_out = sda_out s, mem = mem s,
        trace = trace s @ sample_wave pin (trace s) n\<rparr>)"
proof (induction n arbitrary: d s)
  case 0 then show ?case by simp
next
  case (Suc n)
  let ?v = "pin (trace s @ [DelayUs I2C_SCL_LOW_DELAY, SclWrite True])"
  let ?d1 = "if ?v then push_bit 1 d OR 1 else push_bit 1 d"
  let ?s1 = "\<lparr>scl_out = False, sda_out = sda_out s, mem = mem s,
        trace = trace s @ sample_wave pin (trace s) 1\<rparr>"
  from Suc.prems have i: "8 - Suc n < 8" "Suc (8 - Suc n) = 8 - n" by auto
  have step: "read8_loop pin (8 - Suc n) d s = read8_loop pin (8 - n) ?d1 ?s1"
    using read8_loop_step [OF i(1), of pin d s] by (simp only: i(2))
  show ?case
  proof (cases "n = 0")
    case True
    then show ?thesis unfolding step
      by (simp add: read8_loop_done Let_def)
  next
    case False
    with Suc.prems have n: "n \<le> 8" "n > 0" by auto
    show ?thesis unfolding step Suc.IH [OF n]
      by (simp add: Let_def)
  qed
qed

lemma read8_closed:
  "soft_i2c_read8 pin ack s =
    (assemble 0 (sampled (sample_wave pin (trace s @ [SdaWrite True]) 8)),
     \<lparr>scl_out = False, sda_out = ack, mem = mem s,
      trace = trace s @ [SdaWrite True] @ sample_wave pin (trace s @ [SdaWrite True]) 8
              @ ack_drive_wave ack\<rparr>)"
  using read8_loop_wave [of 8 pin 0 "soft_i2c_sda_write True s"]
  by (simp add: soft_i2c_read8_def soft_i2c_sda_write_def soft_i2c_scl_write_def i2c_delay_us_def
     log_event_def ack_drive_wave_def Let_def del: sample_wave.simps)

lemma new_events_append [simp]:
  "new_events s \<lparr>scl_out = c, sda_out = d, mem = m, trace = trace s @ evs\<rparr> = evs"
  by (simp add: new_events_def)

lemma upt8: "[0..<8] = [0, 1, 2, 3, 4, 5, 6, 7]"
  by (simp add: upt_conv_Cons)

lemma byte_wave_unfold:
  "byte_wave b = bit_pulse (bit b 7) @ bit_pulse (bit b 6) @ bit_pulse (bit b 5) @
     bit_pulse (bit b 4) @ bit_pulse (bit b 3) @ bit_pulse (bit b 2) @ bit_pulse (bit b 1) @
     bit_pulse (bit b 0)"
  by (simp add: byte_wave_def bits_wave_def upt8)

lemma msb_first_unfold:
  "msb_first b = [bit b 7, bit b 6, bit b 5, bit b 4, bit b 3, bit b 2, bit b 1, bit b 0]"
  by (simp add: msb_first_def upt8)

lemma length_msb_first: "length (msb_first b) = 8"
  by (simp add: msb_first_def)

lemma last_scl_write_append:
  "last_scl_write (xs @ ys) =
     (case last_scl_write ys of Some v \<Rightarrow> Some v | None \<Rightarrow> last_scl_write xs)"
  by (induction xs) (auto split: option.splits)

lemma bit_times2: "bit ((a::u8) * 2) n = (0 < n \<and> n < 8 \<and> bit a (n - 1))"
  using bit_push_bit_iff [of 1 a n] by auto

lemma bit_shift_in:
  "bit (if v then push_bit 1 (d::u8) OR 1 else push_bit 1 d) n =
     (if n = 0 then v else n < 8 \<and> bit d (n - 1))"
  by (cases n) (auto simp: bit_simps bit_times2 bit_0 even_or_iff)

lemma assemble_msb_first: "assemble 0 (msb_first b) = b"
proof (rule bit_word_eqI)
  fix n assume "n < LENGTH(8)"
  then have "n \<in> {0, 1, 2, 3, 4, 5, 6, 7}"
    by auto
  then show "bit (assemble 0 (msb_first b)) n = bit b n"
    unfolding msb_first_unfold
    by (elim insertE emptyE) (simp_all only: assemble.simps bit_shift_in, simp_all)
qed

lemma sample_wave_echo:
  "sampled (sample_wave (echo_pin (length tr) [v7, v6, v5, v4, v3, v2, v1, v0])
      (tr @ [SdaWrite True]) 8) = [v7, v6, v5, v4, v3, v2, v1, v0]"
  by (simp add: eval_nat_numeral echo_pin_def Let_def)

lemma sample_wave_echo_msb:
  "sampled (sample_wave (echo_pin (length tr) (msb_first b)) (tr @ [SdaWrite True]) 8)
     = msb_first b"
  unfolding msb_first_unfold by (rule sample_wave_echo)

lemma sda_at_rising_write8:
  "sda_at_rising d (byte_wave b @ ack_sample_wave v) = msb_first b @ [True]"
  by (simp add: byte_wave_unfold msb_first_unfold bit_pulse_def ack_sample_wave_def
      ack_release_def)

section \<open>Transactions and the bus scan in closed form\<close>

lemma write_loop_step:
  "c \<noteq> 0 \<Longrightarrow> write_loop pin p c s =
     write_loop pin (p + 1) (c - 1)
       \<lparr>scl_out = False, sda_out = True, mem = mem s,
        trace = trace s @ payload_wave pin (mem s) (trace s) p 1\<rparr>"
  apply (subst write_loop.simps)
  apply (simp add: load_byte_def log_event_def write8_closed write8_ack_def Let_def)
  done

lemma write_loop_done: "write_loop pin p 0 s = s"
  by (subst write_loop.simps) simp

lemma write_loop_wave:
  "unat c = n \<Longrightarrow>
     mem (write_loop pin p c s) = mem s \<and>
     trace (write_loop pin p c s) = trace s @ payload_wave pin (mem s) (trace s) p n"
proof (induction n arbitrary: c p s)
  case 0
  then have "c = 0" by (simp add: unat_eq_0)
  then show ?case by (simp add: write_loop_done)
next
  case (Suc n)
  then have "c \<noteq> 0" by auto
  with Suc.prems have c: "c \<noteq> 0" "unat (c - 1) = n"
    by (simp_all add: unat_minus_one)
  show ?case
    unfolding write_loop_step [OF c(1)]
    using Suc.IH [OF c(2)] by (simp add: Let_def)
qed

lemma read_loop_step:
  "c \<noteq> 0 \<Longrightarrow> read_loop pin p c s =
     read_loop pin (p + 1) (c - 1)
       \<lparr>scl_out = False, sda_out = False,
        mem = (mem s)(p := assemble 0 (sampled (sample_wave pin (trace s @ [SdaWrite True]) 8))),
        trace = trace s @ reads_wave pin (trace s) p 1\<rparr>"
  apply (subst read_loop.simps)
  apply (simp add: store_byte_def log_event_def read8_closed Let_def del: sample_wave.simps)
  done

lemma read_loop_done: "read_loop pin p 0 s = s"
  by (subst read_loop.simps) simp

lemma read_loop_wave:
  "unat c = n \<Longrightarrow>
     trace (read_loop pin p c s) = trace s @ reads_wave pin (trace s) p n"
proof (induction n arbitrary: c p s)
  case 0
  then have "c = 0" by (simp add: unat_eq_0)
  then show ?case by (simp add: read_loop_done)
next
  case (Suc n)
  then have "c \<noteq> 0" by auto
  with Suc.prems have c: "c \<noteq> 0" "unat (c - 1) = n"
    by (simp_all add: unat_minus_one)
  show ?case
    unfolding read_loop_step [OF c(1)]
    using Suc.IH [OF c(2)] by (simp add: Let_def del: sample_wave.simps)
qed

lemma bus_out_Nil: "bus_out [] = []"
  by (simp add: bus_out_def)

lemma bus_out_append: "bus_out (xs @ ys) = bus_out xs @ bus_out ys"
  by (simp add: bus_out_def)

lemma bus_out_Cons:
  "bus_out (e # es) = (if is_driven e then e # bus_out es else bus_out es)"
  by (simp add: bus_out_def)

lemma bus_out_bits_wave: "bus_out (bits_wave n b) = bits_wave n b"
  by (induction n) (simp_all add: bits_wave_def bus_out_def bit_pulse_def)

lemma bus_out_byte_wave: "bus_out (byte_wave b) = byte_wave b"
  by (simp add: byte_wave_def bus_out_bits_wave)

lemma bus_out_ack_sample: "bus_out (ack_sample_wave v) = SdaWrite True # clock_pulse"
  by (simp add: ack_sample_wave_def ack_release_def clock_pulse_def bus_out_def)

lemma bus_out_start: "bus_out start_wave = start_wave"
  by (simp add: start_wave_def bus_out_def)

lemma bus_out_stop: "bus_out stop_wave = stop_wave"
  by (simp add: stop_wave_def bus_out_def)

lemma bus_out_ack_drive: "bus_out (ack_drive_wave v) = ack_drive_wave v"
  by (simp add: ack_drive_wave_def bus_out_def)

lemma bus_out_sample_wave: "bus_out (sample_wave pin tr n) = concat (replicate n clock_pulse)"
  by (induction n arbitrary: tr) (simp_all add: Let_def bus_out_def clock_pulse_def)

lemma bus_out_payload_wave: "bus_out (payload_wave pin m tr p n) = payload_out m p n"
  by (induction n arbitrary: tr p)
     (simp_all add: Let_def bus_out_Nil bus_out_append bus_out_Cons bus_out_byte_wave bus_out_ack_sample
        write_frame_out_def)

lemma bus_out_reads_wave:
  "bus_out (reads_wave pin tr p n) = concat (replicate n (read_frame_out False))"
  by (induction n arbitrary: tr p)
     (simp_all add: Let_def bus_out_Nil bus_out_append bus_out_Cons bus_out_sample_wave bus_out_ack_drive
        read_frame_out_def del: sample_wave.simps)

lemmas bus_out_waves = bus_out_Nil bus_out_append bus_out_Cons bus_out_byte_wave bus_out_ack_sample
  bus_out_start bus_out_stop bus_out_payload_wave bus_out_reads_wave

lemma i2c_write_read_closed:
  "fst (i2c_write_read pin a wd wc rd rc s) = 0 \<and>
   trace (snd (i2c_write_read pin a wd wc rd rc s)) =
     trace s @ write_phase_wave pin (mem s) (trace s) a wd wc
       @ read_phase_wave pin (trace s @ write_phase_wave pin (mem s) (trace s) a wd wc) a rd rc"
  by (simp add: i2c_write_read_def write_phase_wave_def read_phase_wave_def Let_def
      start_closed stop_closed write8_closed write8_ack_def
      write_loop_wave [OF refl] read_loop_wave [OF refl])

lemma i2c_write_read_mem:
  "rd = 0 \<or> rc = 0 \<Longrightarrow> mem (snd (i2c_write_read pin a wd wc rd rc s)) = mem s"
  by (auto simp add: i2c_write_read_def Let_def
      start_closed stop_closed write8_closed write_loop_wave [OF refl])

lemma bus_out_write_phase:
  "bus_out (write_phase_wave pin m tr a wd wc) = write_phase_out m a wd wc"
  by (simp add: write_phase_wave_def write_phase_out_def write_frame_out_def Let_def
      bus_out_waves)

lemma bus_out_read_phase:
  "bus_out (read_phase_wave pin tr a rd rc) = read_phase_out a rd rc"
  by (simp add: read_phase_wave_def read_phase_out_def write_frame_out_def Let_def
      bus_out_waves)

lemma i2c_write_read_out:
  "bus_out (new_events s (snd (i2c_write_read pin a wd wc rd rc s))) =
     write_phase_out (mem s) a wd wc @ read_phase_out a rd rc"
  by (simp add: new_events_def i2c_write_read_closed bus_out_append bus_out_write_phase
      bus_out_read_phase)

lemma filter_byte_wave:
  "filter is_load (byte_wave b) = []" "filter is_store (byte_wave b) = []"
  by (simp_all add: byte_wave_unfold bit_pulse_def)

lemma filter_sample_wave:
  "filter is_load (sample_wave pin tr n) = []" "filter is_store (sample_wave pin tr n) = []"
  by (induction n arbitrary: tr) (simp_all add: Let_def)

lemma filter_fixed_waves:
  "filter is_load start_wave = []" "filter is_store start_wave = []"
  "filter is_load stop_wave = []" "filter is_store stop_wave = []"
  "filter is_load (ack_sample_wave v) = []" "filter is_store (ack_sample_wave v) = []"
  "filter is_load (ack_drive_wave v) = []"
  by (simp_all add: start_wave_def stop_wave_def ack_sample_wave_def ack_release_def
      ack_drive_wave_def)

lemma stores_payload_wave: "filter is_store (payload_wave pin m tr p n) = []"
  by (induction n arbitrary: tr p) (simp_all add: Let_def filter_byte_wave filter_fixed_waves)

lemma loads_reads_wave: "filter is_load (reads_wave pin tr p n) = []"
  by (induction n arbitrary: tr p)
     (simp_all add: Let_def filter_sample_wave filter_fixed_waves del: sample_wave.simps)

lemma stores_write_phase: "filter is_store (write_phase_wave pin m tr a wd wc) = []"
  by (simp add: write_phase_wave_def Let_def filter_byte_wave filter_fixed_waves
      stores_payload_wave)

lemma loads_read_phase: "filter is_load (read_phase_wave pin tr a rd rc) = []"
  by (simp add: read_phase_wave_def Let_def filter_byte_wave filter_fixed_waves
      loads_reads_wave)

lemma sda_at_rising_bus_out: "sda_at_rising d (bus_out evs) = sda_at_rising d evs"
  by (induction d evs rule: sda_at_rising.induct) (simp_all add: bus_out_def)

lemma sda_at_rising_append:
  "sda_at_rising d (xs @ SdaWrite v # ys) = sda_at_rising d xs @ sda_at_rising v ys"
  by (induction d xs rule: sda_at_rising.induct) simp_all

lemma sda_at_rising_byte_wave: "sda_at_rising d (byte_wave b) = msb_first b"
  by (simp add: byte_wave_unfold msb_first_unfold bit_pulse_def)

lemma replicate8: "replicate 8 x = [x, x, x, x, x, x, x, x]"
  by (simp add: eval_nat_numeral)

lemma replicate2: "replicate 2 x = [x, x]"
  by (simp add: numeral_2_eq_2)

lemma sda_at_rising_read_frame:
  "sda_at_rising d (read_frame_out False @ ys) = replicate 8 True @ [False] @ sda_at_rising False ys"
  by (simp add: read_frame_out_def clock_pulse_def ack_drive_wave_def eval_nat_numeral)

lemma sda_at_rising_write_frame:
  "sda_at_rising d (write_frame_out b @ ys) = msb_first b @ [True] @ sda_at_rising True ys"
  by (simp add: write_frame_out_def sda_at_rising_append sda_at_rising_byte_wave clock_pulse_def)

lemma sda_at_rising_read_frames:
  "sda_at_rising d (concat (replicate n (read_frame_out False)) @ stop_wave)
     = concat (replicate n (replicate 8 True @ [False])) @ [False]"
proof (induction n arbitrary: d)
  case 0
  show ?case by (simp add: stop_wave_def)
next
  case (Suc n)
  have "sda_at_rising d (concat (replicate (Suc n) (read_frame_out False)) @ stop_wave)
      = sda_at_rising d (read_frame_out False @ (concat (replicate n (read_frame_out False)) @ stop_wave))"
    by simp
  also have "\<dots> = replicate 8 True @ [False]
      @ sda_at_rising False (concat (replicate n (read_frame_out False)) @ stop_wave)"
    by (rule sda_at_rising_read_frame)
  finally show ?case by (simp add: Suc.IH)
qed

lemma sda_at_rising_read_phase:
  assumes "rd \<noteq> 0" and "rc \<noteq> 0"
  shows "sda_at_rising d (xs @ read_phase_out a rd rc)
     = sda_at_rising d xs @ msb_first (push_bit 1 a OR 1) @ [True]
       @ concat (replicate (unat rc) (replicate 8 True @ [False])) @ [False]"
proof -
  let ?frames = "concat (replicate (unat rc) (read_frame_out False)) @ stop_wave"
  have "read_phase_out a rd rc
      = SdaWrite False # [DelayUs I2C_START_DELAY, SclWrite False]
          @ write_frame_out (push_bit 1 a OR 1) @ ?frames"
    using assms by (simp add: read_phase_out_def start_wave_def)
  then have "sda_at_rising d (xs @ read_phase_out a rd rc)
      = sda_at_rising d xs @ sda_at_rising False (write_frame_out (push_bit 1 a OR 1) @ ?frames)"
    by (simp add: sda_at_rising_append)
  then show ?thesis
    by (simp only: sda_at_rising_write_frame sda_at_rising_read_frames append_assoc)
qed

lemma scan_body_trace:
  "trace (scan_body pin addr s) = trace s @ scan_cell pin (trace s) (unat addr)"
proof -
  have m: "(uint addr mod 16 = 0) = (unat addr mod 16 = 0)"
    unfolding uint_nat by presburger
  have lo: "(uint addr < 3) = (unat addr < 3)"
    unfolding uint_nat by linarith
  have hi: "(119 < uint addr) = (119 < unat addr)"
    unfolding uint_nat by linarith
  have c: "(ucast addr :: u8) = of_nat (unat addr)"
    by simp
  show ?thesis
    unfolding scan_body_def scan_cell_def row_prefix_def I2C_ADDRESS_MIN_def I2C_ADDRESS_MAX_def
      m lo hi c
    by (simp add: printf_def log_event_def Let_def i2c_device_ready_def start_closed stop_closed
      write8_closed write8_ack_def del: of_nat_unat)
qed

lemma scan_loop_step:
  "unat addr \<le> 0x77 \<Longrightarrow> scan_loop pin addr s = scan_loop pin (addr + 1) (scan_body pin addr s)"
proof -
  assume "unat addr \<le> 0x77"
  then have "uint addr \<le> 0x77" unfolding uint_nat by linarith
  then show ?thesis
    by (subst scan_loop.simps) (simp add: I2C_ADDRESS_MAX_def)
qed

lemma scan_loop_exit: "0x77 < unat addr \<Longrightarrow> scan_loop pin addr s = s"
proof -
  assume "0x77 < unat addr"
  then have "\<not> uint addr \<le> 0x77" unfolding uint_nat by linarith
  then show ?thesis
    by (subst scan_loop.simps) (simp add: I2C_ADDRESS_MAX_def)
qed

lemma unat_succ_u16: "unat (addr :: u16) \<le> 0x77 \<Longrightarrow> unat (addr + 1) = Suc (unat addr)"
  by (simp add: unat_word_ariths)

lemma scan_loop_trace:
  "unat addr + n = 120 \<Longrightarrow>
     trace (scan_loop pin addr s) = trace s @ scan_wave pin (trace s) [unat addr..<120]"
proof (induction n arbitrary: addr s)
  case 0
  then show ?case by (simp add: scan_loop_exit)
next
  case (Suc n)
  then have a: "unat addr \<le> 0x77" "unat addr < 120" by auto
  have n: "unat (addr + 1) + n = 120"
    using Suc.prems unat_succ_u16 [OF a(1)] by simp
  show ?case
    unfolding scan_loop_step [OF a(1)] Suc.IH [OF n] unat_succ_u16 [OF a(1)]
      upt_conv_Cons [OF a(2)]
    by (simp add: scan_body_trace)
qed

lemma header_loop_step:
  "i \<le> 15 \<Longrightarrow> header_loop i s = header_loop (i + 1) (printf ('' '' @ fmt_0X (nat i) @ '' '') s)"
  by (subst header_loop.simps) simp

lemma header_loop_exit: "15 < i \<Longrightarrow> header_loop i s = s"
  by (subst header_loop.simps) simp

lemma header_loop_trace:
  "k + n = 16 \<Longrightarrow>
     trace (header_loop (int k) s) =
       trace s @ map (\<lambda>k. Print ('' '' @ fmt_0X k @ '' '')) [k..<16]"
proof (induction n arbitrary: k s)
  case 0
  then show ?case by (simp add: header_loop_exit)
next
  case (Suc n)
  then have k: "int k \<le> 15" "k < 16" "Suc k + n = 16" by auto
  have i: "int k + 1 = int (Suc k)" by simp
  show ?case
    unfolding header_loop_step [OF k(1)] upt_conv_Cons [OF k(2)] i Suc.IH [OF k(3)]
    by (simp add: printf_def log_event_def)
qed

lemma hex_digits_3: "hex_digits 3 = ''3''"
  by (subst hex_digits.simps) (simp add: hex_digit_def)

lemma hex_digits_0x77: "hex_digits 0x77 = ''77''"
  by (subst hex_digits.simps, subst hex_digits.simps) (simp add: hex_digit_def)

lemma cl_i2c_scan_trace:
  "trace (snd (cl_i2c_scan pin s)) =
     trace s @ header_wave @ scan_wave pin (trace s @ header_wave) [0..<120] @ [Print [newline]]"
  using header_loop_trace [of 0 16] scan_loop_trace [of 0 120]
  by (simp add: cl_i2c_scan_def header_wave_def printf_def log_event_def Let_def
      I2C_ADDRESS_MIN_def I2C_ADDRESS_MAX_def fmt_02X_def hex_digits_3 hex_digits_0x77)

lemma hex_digit_not_space: "hex_digit n \<noteq> CHR '' ''"
proof -
  have "n mod 16 < length ''0123456789ABCDEF''" by simp
  then have "hex_digit n \<in> set ''0123456789ABCDEF''"
    unfolding hex_digit_def by (rule nth_mem)
  then show ?thesis by auto
qed

lemma hex_digits_no_space: "CHR '' '' \<notin> set (hex_digits n)"
proof (induction n rule: hex_digits.induct)
  case (1 n)
  show ?case
  proof (cases "n < 16")
    case True
    then show ?thesis
      by (subst hex_digits.simps) (simp add: hex_digit_not_space [symmetric])
  next
    case False
    with 1 show ?thesis
      by (subst hex_digits.simps) (simp add: hex_digit_not_space [symmetric])
  qed
qed

lemma fmt_02X_not_blank: "fmt_02X n @ '' '' \<noteq> ''   ''"
proof
  assume "fmt_02X n @ '' '' = ''   ''"
  then have "fmt_02X n = ''  ''" by simp
  then have "CHR '' '' \<in> set (fmt_02X n)" by simp
  then show False
    by (simp add: fmt_02X_def hex_digits_no_space split: if_splits)
qed

lemma fmt_0X_not_blank: "CHR '' '' # fmt_0X n @ '' '' \<noteq> ''   ''"
proof
  assume "CHR '' '' # fmt_0X n @ '' '' = ''   ''"
  then have "fmt_0X n = '' ''" by simp
  then have "CHR '' '' \<in> set (fmt_0X n)" by simp
  then show False
    by (simp add: fmt_0X_def hex_digits_no_space)
qed

lemma bus_out_scan_cell:
  "bus_out (scan_cell pin tr a) = (if in_scan_range a then probe_out (of_nat a) else [])"
  by (simp add: scan_cell_def row_prefix_def in_scan_range_def probe_out_def write_frame_out_def
      Let_def bus_out_waves)

lemma bus_out_scan_wave:
  "bus_out (scan_wave pin tr as) = concat (map (\<lambda>a. probe_out (of_nat a)) (filter in_scan_range as))"
  by (induction as arbitrary: tr) (simp_all add: bus_out_Nil bus_out_append bus_out_scan_cell)

lemma count_blank_fixed_waves:
  "count_list start_wave (Print x) = 0" "count_list stop_wave (Print x) = 0"
  "count_list (ack_sample_wave v) (Print x) = 0" "count_list (byte_wave b) (Print x) = 0"
  by (simp_all add: start_wave_def stop_wave_def ack_sample_wave_def ack_release_def
      byte_wave_unfold bit_pulse_def)

lemma count_blank_scan_cell:
  "count_list (scan_cell pin tr a) (Print ''   '') = (if in_scan_range a then 0 else 1)"
  by (simp add: scan_cell_def row_prefix_def in_scan_range_def Let_def count_blank_fixed_waves
      fmt_02X_not_blank newline_def)

lemma count_blank_scan_wave:
  "count_list (scan_wave pin tr as) (Print ''   '') = length (filter (\<lambda>a. \<not> in_scan_range a) as)"
  by (induction as arbitrary: tr) (simp_all add: count_blank_scan_cell)

lemma fmt_0X_not_space: "fmt_0X n \<noteq> '' ''"
  using fmt_0X_not_blank [of n] by simp

lemma count_blank_header: "count_list header_wave (Print ''   '') = 0"
proof -
  have "count_list (map (\<lambda>k. Print ('' '' @ fmt_0X k @ '' '')) ks) (Print ''   '') = 0" for ks
    by (induction ks) (simp_all add: fmt_0X_not_space)
  then show ?thesis
    by (simp add: header_wave_def)
qed

lemma bus_out_header: "bus_out header_wave = []"
  by (simp add: header_wave_def bus_out_def filter_empty_conv)

lemma scan_range_filter: "filter in_scan_range [0..<120] = [3..<120]"
proof -
  have "[0..<120] = [0, 1, 2] @ [3..<120]"
    using upt_add_eq_append [of 0 3 117] by (simp add: upt_conv_Cons)
  moreover have "filter in_scan_range [3..<120] = [3..<120]"
    by (simp add: in_scan_range_def)
  ultimately show ?thesis
    by (simp add: in_scan_range_def)
qed

lemma out_of_range_filter: "filter (\<lambda>a. \<not> in_scan_range a) [0..<120] = [0, 1, 2]"
proof -
  have "[0..<120] = [0, 1, 2] @ [3..<120]"
    using upt_add_eq_append [of 0 3 117] by (simp add: upt_conv_Cons)
  moreover have "filter (\<lambda>a. \<not> in_scan_range a) [3..<120] = []"
    by (simp add: in_scan_range_def)
  ultimately show ?thesis
    by (simp add: in_scan_range_def)
qed

lemma cl_i2c_scan_out:
  "bus_out (new_events s (snd (cl_i2c_scan pin s)))
     = concat (map (\<lambda>a. probe_out (of_nat a)) [3..<120])"
proof -
  have "bus_out (new_events s (snd (cl_i2c_scan pin s)))
     = concat (map (\<lambda>a. probe_out (of_nat a)) (filter in_scan_range [0..<120]))"
    by (simp add: new_events_def cl_i2c_scan_trace bus_out_append bus_out_header
        bus_out_scan_wave bus_out_Cons bus_out_Nil del: upt_rec_numeral)
  then show ?thesis
    by (simp only: scan_range_filter)
qed

lemma cl_i2c_scan_blank:
  "count_list (new_events s (snd (cl_i2c_scan pin s))) (Print ''   '') = 3"
proof -
  have "count_list (new_events s (snd (cl_i2c_scan pin s))) (Print ''   '')
      = length (filter (\<lambda>a. \<not> in_scan_range a) [0..<120])"
    by (simp add: new_events_def cl_i2c_scan_trace count_blank_header count_blank_scan_wave
        newline_def del: upt_rec_numeral)
  then show ?thesis
    by (simp only: out_of_range_filter) simp
qed

lemma scan_body_below_min:
  "uint addr < I2C_ADDRESS_MIN \<Longrightarrow>
     new_events s (scan_body pin addr s) = row_prefix (unat addr) @ [Print ''   '']"
proof -
  assume "uint addr < I2C_ADDRESS_MIN"
  then have "unat addr < 3"
    unfolding uint_nat I2C_ADDRESS_MIN_def by linarith
  then show ?thesis
    by (simp add: new_events_def scan_body_trace scan_cell_def)
qed

lemma scan_loop_above_max: "I2C_ADDRESS_MAX < uint addr \<Longrightarrow> scan_loop pin addr s = s"
proof -
  assume "I2C_ADDRESS_MAX < uint addr"
  then have "0x77 < unat addr"
    unfolding uint_nat I2C_ADDRESS_MAX_def by linarith
  then show ?thesis
    by (rule scan_loop_exit)
qed

lemma hex_digits_0: "hex_digits 0 = ''0''"
  by (subst hex_digits.simps) (simp add: hex_digit_def)

text \<open>
  The master's data latch at the rising clock edges of a call of \<^verbatim>\<open>i2c_write_read\<close> with a
  read phase: the levels of the write phase, the bits of the address byte with the read
  bit, the released level of its ACK slot, for each byte eight released levels and the
  level written in its acknowledgment slot, and the level at the edge of STOP.
\<close>

lemma read_phase_sda_levels:
  assumes "rd \<noteq> 0" and "rc \<noteq> 0"
  shows "sda_at_rising (sda_out s) (new_events s (snd (i2c_write_read pin a wd wc rd rc s)))
     = sda_at_rising (sda_out s) (write_phase_out (mem s) a wd wc)
       @ msb_first (push_bit 1 a OR 1) @ [True]
       @ concat (replicate (unat rc) (replicate 8 True @ [False]))
       @ [False]"
proof -
  have "sda_at_rising (sda_out s) (new_events s (snd (i2c_write_read pin a wd wc rd rc s)))
      = sda_at_rising (sda_out s)
          (bus_out (new_events s (snd (i2c_write_read pin a wd wc rd rc s))))"
    by (rule sda_at_rising_bus_out [symmetric])
  also have "\<dots>
      = sda_at_rising (sda_out s) (write_phase_out (mem s) a wd wc @ read_phase_out a rd rc)"
    by (simp only: i2c_write_read_out)
  finally show ?thesis
    by (simp only: sda_at_rising_read_phase [OF assms])
qed

subsection \<open>The levels sampled in the ACK slots\<close>

lemma sampled_append: "sampled (xs @ ys) = sampled xs @ sampled ys"
  by (induction xs rule: sampled.induct) simp_all

lemma hide_reads_append:
  "hide_reads k (xs @ ys) = hide_reads k xs @ hide_reads (k - length (sampled xs)) ys"
  by (induction k xs rule: hide_reads.induct) simp_all

lemma hide_reads_no_read: "sampled xs = [] \<Longrightarrow> hide_reads k xs = xs"
  by (induction k xs rule: hide_reads.induct) simp_all

lemma apply_stores_append: "apply_stores (xs @ ys) m = apply_stores ys (apply_stores xs m)"
proof (induction xs arbitrary: m)
  case Nil
  show ?case by simp
next
  case (Cons e xs)
  then show ?case by (cases e) (simp_all add: fun_upd_def)
qed

lemma apply_stores_no_store: "filter is_store xs = [] \<Longrightarrow> apply_stores xs m = m"
  by (induction xs m rule: apply_stores.induct) simp_all

lemma apply_stores_hide_reads: "apply_stores (hide_reads k xs) m = apply_stores xs m"
  by (induction k xs arbitrary: m rule: hide_reads.induct) simp_all

lemma sampled_fixed_waves:
  "sampled start_wave = []" "sampled stop_wave = []" "sampled (byte_wave b) = []"
  "sampled (ack_drive_wave v) = []" "sampled (ack_sample_wave v) = [v]" "sampled ack_release = []"
  by (simp_all add: start_wave_def stop_wave_def byte_wave_unfold bit_pulse_def
      ack_drive_wave_def ack_sample_wave_def ack_release_def)

lemma length_sampled_sample_wave: "length (sampled (sample_wave pin tr k)) = k"
  by (induction k arbitrary: tr) (simp_all add: Let_def)

lemma length_sampled_payload_wave: "length (sampled (payload_wave pin m tr p k)) = k"
  by (induction k arbitrary: tr p) (simp_all add: Let_def sampled_append sampled_fixed_waves)

lemma length_sampled_write_phase:
  "length (sampled (write_phase_wave pin m tr a wd wc)) = ack_reads wd wc"
  by (simp add: write_phase_wave_def ack_reads_def Let_def sampled_append sampled_fixed_waves
      length_sampled_payload_wave)


lemma seq_pin_append:
  "n \<le> length tr \<Longrightarrow> seq_pin n pad (tr @ xs) = pad (length (sampled (drop n tr)) + length (sampled xs))"
  by (simp add: seq_pin_def sampled_append)

lemma sample_wave_seq_pin:
  "n \<le> length tr \<Longrightarrow> n' \<le> length tr' \<Longrightarrow>
   length (sampled (drop n tr)) = c \<Longrightarrow> length (sampled (drop n' tr')) = c \<Longrightarrow>
   (\<And>i. c \<le> i \<Longrightarrow> pad i = pad' i) \<Longrightarrow>
   sample_wave (seq_pin n pad) tr k = sample_wave (seq_pin n' pad') tr' k"
proof (induction k arbitrary: tr tr' c)
  case 0
  show ?case by simp
next
  case (Suc k)
  let ?rise = "[DelayUs I2C_SCL_LOW_DELAY, SclWrite True]"
  let ?pulse = "?rise @ [SdaRead (pad c), DelayUs I2C_SCL_HIGH_DELAY, SclWrite False]"
  have v: "seq_pin n pad (tr @ ?rise) = pad c" "seq_pin n' pad' (tr' @ ?rise) = pad c"
    using Suc.prems by (simp_all add: seq_pin_append)
  have "sample_wave (seq_pin n pad) (tr @ ?pulse) k = sample_wave (seq_pin n' pad') (tr' @ ?pulse) k"
  proof (rule Suc.IH [of _ _ "Suc c"])
    show "n \<le> length (tr @ ?pulse)" "n' \<le> length (tr' @ ?pulse)"
      using Suc.prems by simp_all
    show "length (sampled (drop n (tr @ ?pulse))) = Suc c"
         "length (sampled (drop n' (tr' @ ?pulse))) = Suc c"
      using Suc.prems by (simp_all add: sampled_append)
    show "pad i = pad' i" if "Suc c \<le> i" for i
      using that Suc.prems(5) [of i] by simp
  qed
  then show ?case
    by (simp add: v Let_def)
qed

lemma reads_wave_seq_pin:
  "n \<le> length tr \<Longrightarrow> n' \<le> length tr' \<Longrightarrow>
   length (sampled (drop n tr)) = c \<Longrightarrow> length (sampled (drop n' tr')) = c \<Longrightarrow>
   (\<And>i. c \<le> i \<Longrightarrow> pad i = pad' i) \<Longrightarrow>
   reads_wave (seq_pin n pad) tr p k = reads_wave (seq_pin n' pad') tr' p k"
proof (induction k arbitrary: tr tr' c p)
  case 0
  show ?case by simp
next
  case (Suc k)
  let ?w = "sample_wave (seq_pin n pad) (tr @ [SdaWrite True]) 8"
  let ?frame = "[SdaWrite True] @ ?w @ ack_drive_wave False @ [Store p (assemble 0 (sampled ?w))]"
  have w: "sample_wave (seq_pin n' pad') (tr' @ [SdaWrite True]) 8 = ?w"
  proof (rule sample_wave_seq_pin [symmetric, of _ _ _ _ c])
    show "n \<le> length (tr @ [SdaWrite True])" "n' \<le> length (tr' @ [SdaWrite True])"
      using Suc.prems by simp_all
    show "length (sampled (drop n (tr @ [SdaWrite True]))) = c"
         "length (sampled (drop n' (tr' @ [SdaWrite True]))) = c"
      using Suc.prems by (simp_all add: sampled_append)
    show "pad i = pad' i" if "c \<le> i" for i
      using that Suc.prems(5) [of i] by simp
  qed
  have "reads_wave (seq_pin n pad) (tr @ ?frame) (p + 1) k
      = reads_wave (seq_pin n' pad') (tr' @ ?frame) (p + 1) k"
  proof (rule Suc.IH [of _ _ "c + 8"])
    show "n \<le> length (tr @ ?frame)" "n' \<le> length (tr' @ ?frame)"
      using Suc.prems by simp_all
    show "length (sampled (drop n (tr @ ?frame))) = c + 8"
         "length (sampled (drop n' (tr' @ ?frame))) = c + 8"
      using Suc.prems
      by (simp_all add: sampled_append sampled_fixed_waves length_sampled_sample_wave
          del: sample_wave.simps)
    show "pad i = pad' i" if "c + 8 \<le> i" for i
      using that Suc.prems(5) [of i] by simp
  qed
  then show ?case
    by (simp add: w Let_def del: sample_wave.simps)
qed

lemma hide_reads_ack_sample:
  "hide_reads (Suc k) (ack_sample_wave v) = ack_sample_wave True"
  by (simp add: ack_sample_wave_def ack_release_def hide_reads_no_read)

lemma hide_reads_payload_wave:
  "n \<le> k \<Longrightarrow>
   hide_reads k (payload_wave pin m tr p n) = hide_reads k (payload_wave pin' m tr' p n)"
proof (induction n arbitrary: tr tr' p k)
  case 0
  show ?case by simp
next
  case (Suc n)
  then obtain j where k: "k = Suc j" "n \<le> j"
    by (cases k) auto
  have sent: "sampled (Load p (m p) # byte_wave (m p)) = []"
    by (simp add: sampled_fixed_waves)
  show ?case
    unfolding k
    by (simp add: Let_def hide_reads_append hide_reads_ack_sample sampled_fixed_waves
        hide_reads_no_read [OF sampled_fixed_waves(3)]
        Suc.IH [OF k(2), of _ "p + 1"])
qed


lemma hide_reads_write_phase:
  "ack_reads wd wc \<le> k \<Longrightarrow>
   hide_reads k (write_phase_wave pin m tr a wd wc)
     = hide_reads k (write_phase_wave pin' m tr' a wd wc)"
proof (cases "wd \<noteq> 0 \<and> wc \<noteq> 0")
  case False
  then show ?thesis by (auto simp: write_phase_wave_def)
next
  case True
  assume "ack_reads wd wc \<le> k"
  with True obtain j where k: "k = Suc j" "unat wc \<le> j"
    by (cases k) (auto simp: ack_reads_def)
  have sent: "sampled (start_wave @ byte_wave (push_bit 1 a)) = []"
    by (simp add: sampled_append sampled_fixed_waves)
  show ?thesis
    using True unfolding k
    by (simp add: write_phase_wave_def Let_def hide_reads_append hide_reads_ack_sample
        sampled_append sampled_fixed_waves length_sampled_payload_wave
        hide_reads_no_read [OF sampled_fixed_waves(1)]
        hide_reads_no_read [OF sampled_fixed_waves(3)]
        hide_reads_payload_wave [OF k(2), of pin m _ wd pin'])
qed

lemma hide_reads_read_phase:
  assumes "n \<le> length tr" and "n \<le> length tr'"
    and "length (sampled (drop n tr)) = c" and "length (sampled (drop n tr')) = c"
    and "\<And>i. c < i \<Longrightarrow> pad i = pad' i"
  shows "hide_reads (Suc 0) (read_phase_wave (seq_pin n pad) tr a rd rc)
     = hide_reads (Suc 0) (read_phase_wave (seq_pin n pad') tr' a rd rc)"
proof (cases "rd \<noteq> 0 \<and> rc \<noteq> 0")
  case False
  then show ?thesis by (auto simp: read_phase_wave_def)
next
  case True
  let ?sent = "start_wave @ byte_wave (push_bit 1 a OR 1)"
  let ?f = "\<lambda>v. ?sent @ ack_sample_wave v"
  have "reads_wave (seq_pin n pad) (tr @ ?f v) rd k = reads_wave (seq_pin n pad') (tr' @ ?f v') rd k"
    for v v' k
  proof (rule reads_wave_seq_pin [of _ _ _ _ "Suc c"])
    show "n \<le> length (tr @ ?f v)" "n \<le> length (tr' @ ?f v')"
      using assms by simp_all
    show "length (sampled (drop n (tr @ ?f v))) = Suc c"
         "length (sampled (drop n (tr' @ ?f v'))) = Suc c"
      using assms by (simp_all add: sampled_append sampled_fixed_waves)
    show "pad i = pad' i" if "Suc c \<le> i" for i
      using that assms(5) [of i] by simp
  qed
  then show ?thesis
    using True
    by (simp add: read_phase_wave_def Let_def hide_reads_append hide_reads_ack_sample
        sampled_append sampled_fixed_waves
        hide_reads_no_read [OF sampled_fixed_waves(1)]
        hide_reads_no_read [OF sampled_fixed_waves(3)])
qed

lemma apply_stores_read_frame:
  "apply_stores ([SdaWrite True] @ sample_wave pin tr k @ ack_drive_wave v @ [Store p x]) m
     = m(p := x)"
  by (simp add: apply_stores_append apply_stores_no_store filter_sample_wave
      ack_drive_wave_def fun_upd_def)

lemma read_loop_mem:
  "unat c = n \<Longrightarrow> mem (read_loop pin p c s) = apply_stores (reads_wave pin (trace s) p n) (mem s)"
proof (induction n arbitrary: c p s)
  case 0
  then have "c = 0" by (simp add: unat_eq_0)
  then show ?case by (simp add: read_loop_done)
next
  case (Suc n)
  then have "c \<noteq> 0" by auto
  with Suc.prems have c: "c \<noteq> 0" "unat (c - 1) = n"
    by (simp_all add: unat_minus_one)
  show ?case
    unfolding read_loop_step [OF c(1)] Suc.IH [OF c(2)]
    using apply_stores_read_frame [of pin "trace s @ [SdaWrite True]" 8 False p _ "mem s"]
    by (simp add: Let_def apply_stores_append del: sample_wave.simps)
qed

lemma i2c_write_read_mem_closed:
  "mem (snd (i2c_write_read pin a wd wc rd rc s))
     = apply_stores (new_events s (snd (i2c_write_read pin a wd wc rd rc s))) (mem s)"
proof -
  have "new_events s (snd (i2c_write_read pin a wd wc rd rc s))
      = write_phase_wave pin (mem s) (trace s) a wd wc
        @ read_phase_wave pin (trace s @ write_phase_wave pin (mem s) (trace s) a wd wc) a rd rc"
    by (simp add: new_events_def i2c_write_read_closed)
  moreover have "mem (snd (i2c_write_read pin a wd wc rd rc s))
      = apply_stores
          (read_phase_wave pin (trace s @ write_phase_wave pin (mem s) (trace s) a wd wc) a rd rc)
          (mem s)"
    by (simp add: i2c_write_read_def write_phase_wave_def read_phase_wave_def Let_def
        start_closed stop_closed write8_closed write8_ack_def
        write_loop_wave [OF refl] read_loop_wave [OF refl] read_loop_mem [OF refl]
        apply_stores_append apply_stores_no_store filter_fixed_waves filter_byte_wave)
  ultimately show ?thesis
    by (simp add: apply_stores_append apply_stores_no_store stores_write_phase)
qed

lemma i2c_write_read_events:
  "new_events s (snd (i2c_write_read pin a wd wc rd rc s))
     = write_phase_wave pin (mem s) (trace s) a wd wc
       @ read_phase_wave pin (trace s @ write_phase_wave pin (mem s) (trace s) a wd wc) a rd rc"
  by (simp add: new_events_def i2c_write_read_closed)

lemma i2c_write_read_hide_acks:
  "hide_reads (Suc (ack_reads wd wc))
      (new_events s (snd (i2c_write_read
         (seq_pin (length (trace s)) (with_acks (ack_reads wd wc) acks pad)) a wd wc rd rc s)))
   = hide_reads (Suc (ack_reads wd wc))
      (new_events s (snd (i2c_write_read (seq_pin (length (trace s)) pad) a wd wc rd rc s)))"
proof -
  let ?n = "length (trace s)"
  let ?W = "ack_reads wd wc"
  let ?P = "seq_pin ?n (with_acks ?W acks pad)"
  let ?Q = "seq_pin ?n pad"
  let ?wP = "write_phase_wave ?P (mem s) (trace s) a wd wc"
  let ?wQ = "write_phase_wave ?Q (mem s) (trace s) a wd wc"
  have w: "hide_reads (Suc ?W) ?wP = hide_reads (Suc ?W) ?wQ"
    by (rule hide_reads_write_phase) simp
  have r: "hide_reads (Suc 0) (read_phase_wave ?P (trace s @ ?wP) a rd rc)
      = hide_reads (Suc 0) (read_phase_wave ?Q (trace s @ ?wQ) a rd rc)"
  proof (rule hide_reads_read_phase [of _ _ _ ?W])
    show "?n \<le> length (trace s @ ?wP)" "?n \<le> length (trace s @ ?wQ)"
      by simp_all
    show "length (sampled (drop ?n (trace s @ ?wP))) = ?W"
         "length (sampled (drop ?n (trace s @ ?wQ))) = ?W"
      by (simp_all add: length_sampled_write_phase)
    show "with_acks ?W acks pad i = pad i" if "?W < i" for i
      using that by (simp add: with_acks_def)
  qed
  show ?thesis
    unfolding i2c_write_read_events
    by (simp only: hide_reads_append length_sampled_write_phase diff_Suc_less w r)
       (simp add: w r Suc_diff_le)
qed

section \<open>Claims\<close>

text \<open>
  C1: for every byte \<open>b\<close>, entered with the clock low, \<^verbatim>\<open>soft_i2c_write8\<close> produces the
  eight bit pulses of \<open>b\<close> followed by the ACK pulse and nothing else. The clock rises 9
  times and falls 9 times; the data latch never changes while the clock is high; at the
  9 rising edges the data latch holds bit 7 down to bit 0 of \<open>b\<close> and then the released
  level; the value returned is the level of the pad read in the high phase of the 9th
  pulse.
\<close>

theorem write8_waveform:
  assumes "\<not> scl_out s"
  shows "(let (ack, s') = soft_i2c_write8 pin b s; evs = new_events s s' in
      evs = byte_wave b @ ack_sample_wave ack
    \<and> ack = pin (trace s @ byte_wave b @ ack_release)
    \<and> count_list evs (SclWrite True) = 9
    \<and> count_list evs (SclWrite False) = 9
    \<and> sda_changes_while_high 0 (scl_out s) (sda_out s) evs = []
    \<and> sda_at_rising (sda_out s) evs = msb_first b @ [True])"
  using assms
  by (simp add: write8_closed write8_ack_def sda_at_rising_write8)
     (simp add: byte_wave_unfold bit_pulse_def ack_sample_wave_def ack_release_def)

theorem write8_waveform_witness:
  "\<not> scl_out (soft_i2c_start idle_bus)
   \<and> (let (ack, s') = soft_i2c_write8 no_slave 0xA5 (soft_i2c_start idle_bus);
           evs = new_events (soft_i2c_start idle_bus) s' in
        ack
      \<and> count_list evs (SclWrite True) = 9
      \<and> count_list evs (SclWrite False) = 9
      \<and> sda_changes_while_high 0 False False evs = []
      \<and> sda_at_rising False evs = [True, False, True, False, False, True, False, True, True])"
  using write8_waveform [of "soft_i2c_start idle_bus" no_slave "0xA5"]
  by (simp add: start_closed write8_closed idle_bus_def no_slave_def write8_ack_def
      msb_first_unfold Let_def new_events_def)

text \<open>
  C2: the levels \<^verbatim>\<open>soft_i2c_write8\<close> holds on the data line at its eight data pulses are
  the bits of \<open>b\<close>, most significant first, and \<^verbatim>\<open>soft_i2c_read8\<close> run against a slave that
  echoes these levels returns \<open>b\<close>.
\<close>

theorem write8_read8_loopback:
  "(let s1 = snd (soft_i2c_write8 pin b s);
        bits = take 8 (sda_at_rising (sda_out s) (new_events s s1))
    in bits = msb_first b
     \<and> fst (soft_i2c_read8 (echo_pin (length (trace s2)) bits) ack s2) = b)"
  by (simp add: write8_closed read8_closed sda_at_rising_write8 length_msb_first
      sample_wave_echo_msb assemble_msb_first Let_def)

text \<open>
  C4, as the code has it: for every \<open>ack\<close>, \<^verbatim>\<open>soft_i2c_read8\<close> releases the data line,
  samples 8 bits, drives the data line to \<open>ack\<close>, pulses the clock once more and returns
  the assembled byte. The data line is left at the level \<open>ack\<close>: it is not released
  after the ninth pulse.
\<close>

theorem read8_waveform:
  "(let w = sample_wave pin (trace s @ [SdaWrite True]) 8;
        (data_byte, s') = soft_i2c_read8 pin ack s in
      new_events s s' = [SdaWrite True] @ w @ ack_drive_wave ack
    \<and> length (sampled w) = 8
    \<and> data_byte = assemble 0 (sampled w)
    \<and> sda_out s' = ack)"
  by (simp add: read8_closed Let_def eval_nat_numeral)

text \<open>
  C4 as stated fails for \<open>ack = False\<close>: on return the data line is still driven low, and
  the last five events are the ACK pulse, with no release after it.
\<close>

theorem read8_leaves_sda_driven:
  "\<not> sda_out (snd (soft_i2c_read8 no_slave False idle_bus))
   \<and> drop 41 (new_events idle_bus (snd (soft_i2c_read8 no_slave False idle_bus)))
       = [SdaWrite False, DelayUs 5, SclWrite True, DelayUs 5, SclWrite False]"
  by (simp add: read8_closed idle_bus_def no_slave_def ack_drive_wave_def eval_nat_numeral
      Let_def I2C_SCL_LOW_DELAY_def I2C_SCL_HIGH_DELAY_def new_events_def)

text \<open>
  C5: for every address \<open>a\<close>, \<^verbatim>\<open>i2c_device_ready\<close> produces START, the byte \<open>a << 1\<close>
  with its ACK pulse, STOP, and nothing else, and returns the negation of the level
  sampled in the ACK pulse. The low bit of the byte sent is 0 and its upper seven bits
  are the low seven bits of \<open>a\<close>.
\<close>

theorem i2c_device_ready_sequence:
  "i2c_device_ready pin a s =
     (\<not> probe_ack pin a s,
      \<lparr>scl_out = True, sda_out = True, mem = mem s,
       trace = trace s @ start_wave @ byte_wave (push_bit 1 a)
               @ ack_sample_wave (probe_ack pin a s) @ stop_wave\<rparr>)
   \<and> \<not> bit (push_bit 1 a) 0
   \<and> drop_bit 1 (push_bit 1 a) = take_bit 7 a"
proof -
  have "\<not> bit (push_bit 1 a) 0"
    by (simp add: bit_times2)
  moreover have "drop_bit 1 (push_bit 1 a) = take_bit 7 a"
    by (rule bit_word_eqI) (auto simp: bit_simps bit_times2)
  ultimately show ?thesis
    by (simp add: i2c_device_ready_def start_closed stop_closed write8_closed write8_ack_def
        probe_ack_def)
qed

text \<open>
  C7: from any state, \<^verbatim>\<open>soft_i2c_start\<close> followed by \<^verbatim>\<open>soft_i2c_stop\<close> leaves both latches
  released. Of the 8 events produced, the only rise of the data line while the clock is
  high is the last one, the STOP condition; from the idle bus the only other change of
  the data line while the clock is high is the fall that makes the START condition.
\<close>

theorem start_stop_idle:
  "scl_out (soft_i2c_stop (soft_i2c_start s))
   \<and> sda_out (soft_i2c_stop (soft_i2c_start s))
   \<and> new_events s (soft_i2c_stop (soft_i2c_start s)) = start_wave @ stop_wave
   \<and> length (start_wave @ stop_wave) = 8
   \<and> filter snd (sda_changes_while_high 0 (scl_out s) (sda_out s)
         (new_events s (soft_i2c_stop (soft_i2c_start s)))) = [(7, True)]
   \<and> sda_changes_while_high 0 True True (start_wave @ stop_wave) = [(0, False), (7, True)]"
  by (simp add: start_closed stop_closed start_wave_def stop_wave_def new_events_def)

text \<open>
  C10: \<^verbatim>\<open>soft_i2c_start\<close>, \<^verbatim>\<open>soft_i2c_write8\<close> for every byte and \<^verbatim>\<open>soft_i2c_read8\<close> for
  every \<open>ack\<close> return with the clock latch low, their last write to the clock being a
  low; \<^verbatim>\<open>soft_i2c_stop\<close> returns with the clock released, its last write to the clock
  being a release.
\<close>

theorem clock_low_after_each_step:
  "\<not> scl_out (soft_i2c_start s)
   \<and> last_scl_write (new_events s (soft_i2c_start s)) = Some False
   \<and> \<not> scl_out (snd (soft_i2c_write8 pin b s))
   \<and> last_scl_write (new_events s (snd (soft_i2c_write8 pin b s))) = Some False
   \<and> \<not> scl_out (snd (soft_i2c_read8 pin ack s))
   \<and> last_scl_write (new_events s (snd (soft_i2c_read8 pin ack s))) = Some False
   \<and> scl_out (soft_i2c_stop s)
   \<and> last_scl_write (new_events s (soft_i2c_stop s)) = Some True"
  by (simp add: start_closed stop_closed write8_closed read8_closed last_scl_write_append
      start_wave_def stop_wave_def ack_sample_wave_def ack_release_def ack_drive_wave_def
      del: sample_wave.simps)

text \<open>
  C3: the claim asks for NACK, the data line high, in the acknowledgment slot of every
  byte read. The code does not do this. At the call \<^verbatim>\<open>i2c_write_read(0x68, NULL, 0, &data, 1)\<close>
  made by \<^verbatim>\<open>cl_i2c_read\<close>, on an idle bus, the master's data latch at the 19 rising
  clock edges is: the bits of the address byte 0xD1, the released level of its ACK slot,
  eight released levels for the data bits, then low at the 18th edge (index 17), the
  acknowledgment slot of the only byte read, and low at the edge of STOP. The byte is
  read with \<^verbatim>\<open>soft_i2c_read8(false)\<close>, which writes \<open>False\<close> to the data pin: the last
  byte before STOP is acknowledged, not refused.
\<close>

theorem read_phase_drives_ack_low:
  "sda_at_rising True
        (new_events idle_bus (snd (i2c_write_read no_slave 0x68 0 0 0x20000000 1 idle_bus)))
     = [True, True, False, True, False, False, False, True, True,
        True, True, True, True, True, True, True, True, False,
        False]"
proof -
  let ?evs = "new_events idle_bus (snd (i2c_write_read no_slave 0x68 0 0 0x20000000 1 idle_bus))"
  have "sda_at_rising True ?evs = sda_at_rising True (bus_out ?evs)"
    by (rule sda_at_rising_bus_out [symmetric])
  also have "\<dots> = sda_at_rising True ([] @ read_phase_out 0x68 0x20000000 1)"
    by (simp add: i2c_write_read_out write_phase_out_def)
  also have "\<dots> = [True, True, False, True, False, False, False, True, True,
        True, True, True, True, True, True, True, True, False, False]"
    by (subst sda_at_rising_read_phase) (simp_all add: msb_first_unfold replicate8)
  finally show ?thesis .
qed

text \<open>
  C6: \<^verbatim>\<open>i2c_write_read\<close> returns 0 for every address, every pair of buffers and every
  behaviour of the data pad. What the master drives on the bus is fixed by the address,
  the buffers and the memory alone, so it is the same for any two behaviours of the pad.
  The complete log is the log of the write phase followed by the log of the read phase,
  in which a level sampled in an ACK slot occurs only as the value of its own read, and
  the memory on return is the memory on entry with the stores of the log replayed. For
  a pad given by the sequence of its levels, replacing the levels of all the ACK slots
  of the call by any other levels changes nothing but the logged values of these reads:
  the loads, the stores with their addresses and values, the data bits read, the pin
  writes, the waits and the memory on return are the same.
\<close>

theorem i2c_write_read_ignores_ack:
  "fst (i2c_write_read pin a wd wc rd rc s) = 0
   \<and> bus_out (new_events s (snd (i2c_write_read pin a wd wc rd rc s)))
     = write_phase_out (mem s) a wd wc @ read_phase_out a rd rc
   \<and> bus_out (new_events s (snd (i2c_write_read pin a wd wc rd rc s)))
     = bus_out (new_events s (snd (i2c_write_read pin' a wd wc rd rc s)))
   \<and> new_events s (snd (i2c_write_read pin a wd wc rd rc s))
     = write_phase_wave pin (mem s) (trace s) a wd wc
       @ read_phase_wave pin (trace s @ write_phase_wave pin (mem s) (trace s) a wd wc) a rd rc
   \<and> mem (snd (i2c_write_read pin a wd wc rd rc s))
     = apply_stores (new_events s (snd (i2c_write_read pin a wd wc rd rc s))) (mem s)
   \<and> hide_reads (Suc (ack_reads wd wc))
        (new_events s (snd (i2c_write_read
           (seq_pin (length (trace s)) (with_acks (ack_reads wd wc) acks pad)) a wd wc rd rc s)))
     = hide_reads (Suc (ack_reads wd wc))
        (new_events s (snd (i2c_write_read (seq_pin (length (trace s)) pad) a wd wc rd rc s)))
   \<and> mem (snd (i2c_write_read
           (seq_pin (length (trace s)) (with_acks (ack_reads wd wc) acks pad)) a wd wc rd rc s))
     = mem (snd (i2c_write_read (seq_pin (length (trace s)) pad) a wd wc rd rc s))"
proof -
  let ?P = "seq_pin (length (trace s)) (with_acks (ack_reads wd wc) acks pad)"
  let ?Q = "seq_pin (length (trace s)) pad"
  let ?ev = "\<lambda>pin. new_events s (snd (i2c_write_read pin a wd wc rd rc s))"
  have "mem (snd (i2c_write_read ?P a wd wc rd rc s))
      = apply_stores (hide_reads (Suc (ack_reads wd wc)) (?ev ?P)) (mem s)"
    by (simp only: apply_stores_hide_reads i2c_write_read_mem_closed [symmetric])
  also have "\<dots> = apply_stores (hide_reads (Suc (ack_reads wd wc)) (?ev ?Q)) (mem s)"
    by (simp only: i2c_write_read_hide_acks)
  also have "\<dots> = mem (snd (i2c_write_read ?Q a wd wc rd rc s))"
    by (simp only: apply_stores_hide_reads i2c_write_read_mem_closed [symmetric])
  finally have m: "mem (snd (i2c_write_read ?P a wd wc rd rc s))
      = mem (snd (i2c_write_read ?Q a wd wc rd rc s))" .
  show ?thesis
  proof (intro conjI)
    show "fst (i2c_write_read pin a wd wc rd rc s) = 0"
      by (simp add: i2c_write_read_closed)
    show "bus_out (new_events s (snd (i2c_write_read pin a wd wc rd rc s)))
        = write_phase_out (mem s) a wd wc @ read_phase_out a rd rc"
      by (rule i2c_write_read_out)
    show "bus_out (new_events s (snd (i2c_write_read pin a wd wc rd rc s)))
        = bus_out (new_events s (snd (i2c_write_read pin' a wd wc rd rc s)))"
      by (simp only: i2c_write_read_out)
    show "new_events s (snd (i2c_write_read pin a wd wc rd rc s))
        = write_phase_wave pin (mem s) (trace s) a wd wc
          @ read_phase_wave pin (trace s @ write_phase_wave pin (mem s) (trace s) a wd wc)
              a rd rc"
      by (rule i2c_write_read_events)
    show "mem (snd (i2c_write_read pin a wd wc rd rc s))
        = apply_stores (new_events s (snd (i2c_write_read pin a wd wc rd rc s))) (mem s)"
      by (rule i2c_write_read_mem_closed)
    show "hide_reads (Suc (ack_reads wd wc)) (?ev ?P)
        = hide_reads (Suc (ack_reads wd wc)) (?ev ?Q)"
      by (rule i2c_write_read_hide_acks)
    show "mem (snd (i2c_write_read ?P a wd wc rd rc s))
        = mem (snd (i2c_write_read ?Q a wd wc rd rc s))"
      by (rule m)
  qed
qed

text \<open>
  C8: when the write pointer is \<^verbatim>\<open>NULL\<close> or the write count is 0, the effects of
  \<^verbatim>\<open>i2c_write_read\<close> are those of its read phase alone, and no byte is loaded from
  memory; when the read pointer is \<^verbatim>\<open>NULL\<close> or the read count is 0, the effects are those
  of the write phase alone, no byte is stored and memory is unchanged; when both hold
  the call returns 0 and leaves the machine as it was, with no event at all.
\<close>

theorem i2c_write_read_skips_empty_phase:
  "(wd = 0 \<or> wc = 0 \<longrightarrow>
      new_events s (snd (i2c_write_read pin a wd wc rd rc s))
        = read_phase_wave pin (trace s) a rd rc
      \<and> filter is_load (new_events s (snd (i2c_write_read pin a wd wc rd rc s))) = [])
   \<and> (rd = 0 \<or> rc = 0 \<longrightarrow>
      new_events s (snd (i2c_write_read pin a wd wc rd rc s))
        = write_phase_wave pin (mem s) (trace s) a wd wc
      \<and> filter is_store (new_events s (snd (i2c_write_read pin a wd wc rd rc s))) = []
      \<and> mem (snd (i2c_write_read pin a wd wc rd rc s)) = mem s)
   \<and> ((wd = 0 \<or> wc = 0) \<and> (rd = 0 \<or> rc = 0) \<longrightarrow>
      i2c_write_read pin a wd wc rd rc s = (0, s))"
proof (intro conjI impI)
  assume w: "wd = 0 \<or> wc = 0"
  then have "write_phase_wave pin (mem s) (trace s) a wd wc = []"
    by (auto simp: write_phase_wave_def)
  then show ev: "new_events s (snd (i2c_write_read pin a wd wc rd rc s))
        = read_phase_wave pin (trace s) a rd rc"
    by (simp add: new_events_def i2c_write_read_closed)
  show "filter is_load (new_events s (snd (i2c_write_read pin a wd wc rd rc s))) = []"
    unfolding ev by (rule loads_read_phase)
next
  assume r: "rd = 0 \<or> rc = 0"
  then have "\<And>tr. read_phase_wave pin tr a rd rc = []"
    by (auto simp: read_phase_wave_def)
  then show ev: "new_events s (snd (i2c_write_read pin a wd wc rd rc s))
        = write_phase_wave pin (mem s) (trace s) a wd wc"
    by (simp add: new_events_def i2c_write_read_closed)
  show "filter is_store (new_events s (snd (i2c_write_read pin a wd wc rd rc s))) = []"
    unfolding ev by (rule stores_write_phase)
  show "mem (snd (i2c_write_read pin a wd wc rd rc s)) = mem s"
    using r by (rule i2c_write_read_mem)
next
  assume "(wd = 0 \<or> wc = 0) \<and> (rd = 0 \<or> rc = 0)"
  then show "i2c_write_read pin a wd wc rd rc s = (0, s)"
    by (auto simp: i2c_write_read_def)
qed

theorem i2c_write_read_skips_empty_phase_witness:
  "((0 :: ptr) = 0 \<or> (5 :: u8) = 0)
   \<and> filter is_load
        (new_events idle_bus (snd (i2c_write_read no_slave 0x68 0 5 0x20000000 1 idle_bus))) = []
   \<and> ((0x20000100 :: ptr) = 0 \<or> (0 :: u8) = 0)
   \<and> filter is_store
        (new_events idle_bus (snd (i2c_write_read no_slave 0x68 0x20000000 1 0x20000100 0 idle_bus)))
       = []
   \<and> mem (snd (i2c_write_read no_slave 0x68 0x20000000 1 0x20000100 0 idle_bus)) = mem idle_bus
   \<and> i2c_write_read no_slave 0x68 0 5 0x20000100 0 idle_bus = (0, idle_bus)"
  using
    i2c_write_read_skips_empty_phase
      [where wd = 0 and wc = 5 and rd = "0x20000000" and rc = 1 and s = idle_bus
        and pin = no_slave and a = "0x68"]
    i2c_write_read_skips_empty_phase
      [where wd = "0x20000000" and wc = 1 and rd = "0x20000100" and rc = 0 and s = idle_bus
        and pin = no_slave and a = "0x68"]
    i2c_write_read_skips_empty_phase
      [where wd = 0 and wc = 5 and rd = "0x20000100" and rc = 0 and s = idle_bus
        and pin = no_slave and a = "0x68"]
  by (simp add: loads_read_phase stores_write_phase)

text \<open>
  C9, as the code has it: what \<^verbatim>\<open>cl_i2c_scan\<close> drives on the bus is the probe of address
  0x03, then of 0x04, up to 0x77, and nothing else. An address below 0x03 is reported
  with three blanks and no bus access. The loop ends once the address exceeds 0x77, so
  an address above 0x77 is neither probed nor reported: the whole scan prints the three
  blanks exactly 3 times.
\<close>

theorem scan_probes_valid_range:
  "bus_out (new_events s (snd (cl_i2c_scan pin s)))
     = concat (map (\<lambda>a. probe_out (of_nat a)) [0x03..<0x78])
   \<and> count_list (new_events s (snd (cl_i2c_scan pin s))) (Print ''   '') = 3
   \<and> (uint addr < I2C_ADDRESS_MIN \<longrightarrow>
        new_events s (scan_body pin addr s) = row_prefix (unat addr) @ [Print ''   ''])
   \<and> (I2C_ADDRESS_MAX < uint addr \<longrightarrow> scan_loop pin addr s = s)"
  using cl_i2c_scan_out [of s pin] cl_i2c_scan_blank [of s pin]
    scan_body_below_min [of addr s pin] scan_loop_above_max [of addr pin s]
  by (simp del: upt_rec_numeral)

theorem scan_probes_valid_range_witness:
  "uint (2 :: u16) < I2C_ADDRESS_MIN
   \<and> new_events idle_bus (scan_body no_slave 2 idle_bus) = [Print ''   '']
   \<and> uint (0 :: u16) < I2C_ADDRESS_MIN
   \<and> new_events idle_bus (scan_body no_slave 0 idle_bus)
       = [Print (newline # ''00: ''), Print ''   '']
   \<and> I2C_ADDRESS_MAX < uint (0x78 :: u16)
   \<and> scan_loop no_slave 0x78 idle_bus = idle_bus"
  using scan_probes_valid_range [of idle_bus no_slave 2]
    scan_probes_valid_range [of idle_bus no_slave 0]
    scan_probes_valid_range [of idle_bus no_slave "0x78"]
  by (simp add: I2C_ADDRESS_MIN_def I2C_ADDRESS_MAX_def row_prefix_def fmt_02X_def hex_digits_0
      del: upt_rec_numeral)

text \<open>
  C9 as stated fails above 0x77: of the 128 seven-bit addresses 11 lie outside
  [0x03, 0x77], the scan reports 3 addresses as out of range, and on reaching 0x78 the
  loop ends without printing.
\<close>

theorem scan_reports_three:
  "count_list (new_events idle_bus (snd (cl_i2c_scan no_slave idle_bus))) (Print ''   '') = 3
   \<and> length (filter out_of_scan_range [0..<128]) = 11
   \<and> scan_loop no_slave 0x78 idle_bus = idle_bus"
proof -
  have "length (filter out_of_scan_range [0..<128]) = 11"
    by code_simp
  then show ?thesis
    by (simp add: cl_i2c_scan_blank scan_loop_exit del: upt_rec_numeral)
qed

end
